theory Spec2Isabelle
  imports Complex_Main "HOL-Library.Word"
begin

section \<open>ChemistryLib/PhreeqcIO.cpp: the coupling between transport and Phreeqc\<close>

text \<open>
  A shallow embedding of \<^verbatim>\<open>src/ChemistryLib/PhreeqcIO.cpp\<close>.

  \<^item> A \<^verbatim>\<open>double\<close> is the real number it denotes. The code copies and negates doubles,
    which is exact; the two functions that round, \<^verbatim>\<open>std::log10\<close> and \<^verbatim>\<open>std::pow\<close>, are
    parameters of the model, as is \<^verbatim>\<open>std::stod\<close>. Infinities and NaN are outside it.
  \<^item> \<^verbatim>\<open>std::size_t\<close> is \<open>64 word\<close>: \<open>global_id + 1\<close> wraps as in the code. Loop
    counters that stay below a container size are \<open>nat\<close>.
  \<^item> A \<^verbatim>\<open>std::unique_ptr\<close> that the code tests before use (\<^verbatim>\<open>_dump\<close>, \<^verbatim>\<open>_user_punch\<close>) is an
    \<open>option\<close>; \<^verbatim>\<open>_output\<close>, which no line tests, is a plain field.
  \<^item> \<^verbatim>\<open>OGS_FATAL\<close>, a failing \<^verbatim>\<open>assert\<close> and undefined behaviour (an index out of range,
    a null pointer dereferenced) are values of \<open>error\<close>; every function that can
    reach one returns \<open>error + 'a\<close>.
  \<^item> An output stream is the list of the items inserted into it, in order.
\<close>

subsection \<open>Data\<close>

datatype stod_failure = InvalidArgument | OutOfRange

datatype error =
    ReadFailure "64 word"
  | ConversionFailure stod_failure string "64 word" int
  | NotFound string
  | AssertionFailure
  | OutOfBounds
  | NullDereference

datatype ItemType =
    ItemType_pH
  | ItemType_pe
  | ItemType_Component
  | ItemType_EquilibriumPhase
  | ItemType_KineticReactant
  | ItemType_SecondaryVariable

record Component =
  comp_name :: string
  comp_amount :: real

record AqueousSolution =
  pH :: real
  pe :: real
  components :: "Component list"

text \<open>
  The amount of a phase or reactant and the value of a secondary variable point to a
  vector over all chemical systems; each entity owns its vector.
\<close>

record EquilibriumPhase =
  ep_name :: string
  ep_amount :: "real list"

record KineticReactant =
  kr_name :: string
  kr_amount :: "real list"

record SecondaryVariable =
  sv_name :: string
  sv_value :: "real list"

record UserPunch =
  secondary_variables :: "SecondaryVariable list"

record OutputItem =
  item_name :: string
  item_type :: ItemType

record Output =
  accepted_items :: "OutputItem list"
  dropped_item_ids :: "int list"

record Dump =
  aqueous_solutions_prev :: "string list"

text \<open>
  Knobs, reaction rates and surface sites are only printed by this file; their
  declarations are elsewhere. They stand here for the text that identifies them.
\<close>

type_synonym Knobs = string
type_synonym ReactionRate = string
type_synonym SurfaceSite = string

text \<open>
  The members of \<^verbatim>\<open>PhreeqcIO\<close> that the functions below read or write. Of the mesh
  only \<^verbatim>\<open>getNumberOfBaseNodes()\<close> and the property \<^verbatim>\<open>bulk_node_ids\<close> are used.
\<close>

record PhreeqcIO =
  num_chemical_systems :: "64 word"
  chemical_system_map :: "64 word list"
  knobs :: Knobs
  output' :: Output
  user_punch :: "UserPunch option"
  reaction_rates :: "ReactionRate list"
  aqueous_solutions :: "AqueousSolution list"
  equilibrium_phases :: "EquilibriumPhase list"
  kinetic_reactants :: "KineticReactant list"
  surface :: "SurfaceSite list"
  dump :: "Dump option"
  dt :: real
  process_id_to_component_name_map :: "(int \<times> string) list"

subsection \<open>Iteration\<close>

text \<open>
  A \<^verbatim>\<open>for\<close> loop over a range whose body may stop the program: the body is applied to
  each element in turn, and the first error ends the loop.
\<close>

fun for_each :: "('s \<Rightarrow> 'a \<Rightarrow> error + 's) \<Rightarrow> 'a list \<Rightarrow> 's \<Rightarrow> error + 's" where
  "for_each body [] s = Inr s"
| "for_each body (x # xs) s =
     (case body s x of Inl e \<Rightarrow> Inl e | Inr s' \<Rightarrow> for_each body xs s')"

subsection \<open>The script serializer: \<^verbatim>\<open>operator<<(std::ostream&, PhreeqcIO const&)\<close>\<close>

text \<open>
  One constructor for each kind of insertion the operator makes. \<open>Lit\<close> and \<open>Num\<close> are the
  string literals and \<^verbatim>\<open>std::size_t\<close> values it writes itself; the other constructors are
  the calls of printers defined in other files, with their arguments.
\<close>

datatype fragment =
    Lit string
  | Num "64 word"
  | Dbl real
  | KnobsBlock Knobs
  | OutputBlock Output
  | UserPunchBlock UserPunch
  | ReactionRateBlock ReactionRate
  | AqueousSolutionBlock AqueousSolution
  | PrevSolutionBlock string
  | EquilibriumPhasePrint EquilibriumPhase "64 word"
  | KineticReactantPrint KineticReactant "64 word"
  | SurfaceSiteBlock SurfaceSite
  | DumpPrint Dump "64 word"

definition nl :: string where
  "nl = [CHR 0x0A]"

text \<open>Lines 304 to 312: the previous solution, when a dump holds one.\<close>

definition write_prev :: "PhreeqcIO \<Rightarrow> nat \<Rightarrow> error + fragment list" where
  "write_prev io local_id =
     (case dump io of
        None \<Rightarrow> Inr []
      | Some d \<Rightarrow>
          if aqueous_solutions_prev d = [] then Inr []
          else if length (aqueous_solutions_prev d) \<le> local_id then Inl OutOfBounds
          else Inr [PrevSolutionBlock (aqueous_solutions_prev d ! local_id), Lit (nl @ nl)])"

text \<open>Lines 319 to 328.\<close>

definition write_equilibrium_phases :: "PhreeqcIO \<Rightarrow> 64 word \<Rightarrow> fragment list" where
  "write_equilibrium_phases io global_id =
     (if equilibrium_phases io \<noteq> [] then
        [Lit ''EQUILIBRIUM_PHASES '', Num (global_id + 1), Lit nl]
        @ map (\<lambda>equilibrium_phase. EquilibriumPhasePrint equilibrium_phase global_id)
            (equilibrium_phases io)
        @ [Lit nl]
      else [])"

text \<open>Lines 330 to 339.\<close>

definition write_kinetics :: "PhreeqcIO \<Rightarrow> 64 word \<Rightarrow> fragment list" where
  "write_kinetics io global_id =
     (if kinetic_reactants io \<noteq> [] then
        [Lit ''KINETICS '', Num (global_id + 1), Lit nl]
        @ map (\<lambda>kinetic_reactant. KineticReactantPrint kinetic_reactant global_id)
            (kinetic_reactants io)
        @ [Lit ''-steps '', Dbl (dt io), Lit nl, Lit nl]
      else [])"

text \<open>
  Lines 341 to 354. \<^verbatim>\<open>dump->aqueous_solutions_prev\<close> is read without a test of \<^verbatim>\<open>dump\<close>.
\<close>

definition write_surface :: "PhreeqcIO \<Rightarrow> 64 word \<Rightarrow> error + fragment list" where
  "write_surface io global_id =
     (if surface io \<noteq> [] then
        (case dump io of
           None \<Rightarrow> Inl NullDereference
         | Some d \<Rightarrow>
             let aqueous_solution_id =
                   (if aqueous_solutions_prev d = [] then global_id + 1
                    else num_chemical_systems io + global_id + 1)
             in Inr ([Lit ''SURFACE '', Num (global_id + 1), Lit nl,
                      Lit ''-equilibrate with solution '', Num aqueous_solution_id, Lit nl,
                      Lit ''-sites_units DENSITY'', Lit nl]
                     @ map SurfaceSiteBlock (surface io)
                     @ [Lit nl, Lit ''SAVE solution '', Num (global_id + 1), Lit nl]))
      else Inr [])"

text \<open>The body of the loop over the chemical systems, lines 296 to 357.\<close>

definition write_system :: "PhreeqcIO \<Rightarrow> fragment list \<Rightarrow> nat \<Rightarrow> error + fragment list" where
  "write_system io os local_id =
     (if length (chemical_system_map io) \<le> local_id then Inl OutOfBounds
      else if length (aqueous_solutions io) \<le> local_id then Inl OutOfBounds
      else
        let global_id = chemical_system_map io ! local_id;
            aqueous_solution = aqueous_solutions io ! local_id
        in case write_prev io local_id of
             Inl e \<Rightarrow> Inl e
           | Inr prev \<Rightarrow>
               (case write_surface io global_id of
                  Inl e \<Rightarrow> Inl e
                | Inr surf \<Rightarrow>
                    Inr (os
                      @ [Lit ''SOLUTION '', Num (global_id + 1), Lit nl,
                         AqueousSolutionBlock aqueous_solution, Lit nl]
                      @ prev
                      @ [Lit ''USE solution none'', Lit nl, Lit ''END'', Lit (nl @ nl),
                         Lit ''USE solution '', Num (global_id + 1), Lit (nl @ nl)]
                      @ write_equilibrium_phases io global_id
                      @ write_kinetics io global_id
                      @ surf
                      @ [Lit ''END'', Lit (nl @ nl)])))"

text \<open>Lines 271 to 286: what precedes the loop.\<close>

definition write_header :: "PhreeqcIO \<Rightarrow> fragment list" where
  "write_header io =
     [KnobsBlock (knobs io), Lit nl, OutputBlock (output' io), Lit nl]
     @ (case user_punch io of None \<Rightarrow> [] | Some up \<Rightarrow> [UserPunchBlock up, Lit nl])
     @ (if reaction_rates io \<noteq> [] then
          [Lit ''RATES'', Lit nl] @ map ReactionRateBlock (reaction_rates io) @ [Lit nl]
        else [])"

definition write_dump :: "PhreeqcIO \<Rightarrow> fragment list" where
  "write_dump io =
     (case dump io of None \<Rightarrow> [] | Some d \<Rightarrow> [DumpPrint d (num_chemical_systems io)])"

definition serialize :: "PhreeqcIO \<Rightarrow> error + fragment list" where
  "serialize io =
     (case for_each (write_system io) [0..<unat (num_chemical_systems io)] (write_header io) of
        Inl e \<Rightarrow> Inl e
      | Inr os \<Rightarrow> Inr (os @ write_dump io))"


subsection \<open>\<^verbatim>\<open>PhreeqcIO::setAqueousSolutionsOrUpdateProcessSolutions\<close>\<close>

datatype Status = SettingAqueousSolutions | UpdatingProcessSolutions

text \<open>
  \<^verbatim>\<open>process_solutions\<close> is a vector of pointers to the global solution vectors, one for
  each transport process; each process has a vector of its own. \<^verbatim>\<open>get\<close> and \<^verbatim>\<open>set\<close> of an
  index outside the vector are undefined behaviour.
\<close>

definition vector_get :: "real list \<Rightarrow> 64 word \<Rightarrow> error + real" where
  "vector_get v global_id =
     (if unat global_id < length v then Inr (v ! unat global_id) else Inl OutOfBounds)"

definition vector_set :: "real list \<Rightarrow> 64 word \<Rightarrow> real \<Rightarrow> error + real list" where
  "vector_set v global_id x =
     (if unat global_id < length v then Inr (v[unat global_id := x]) else Inl OutOfBounds)"

text \<open>\<^verbatim>\<open>std::find_if\<close>: the position of the first element that satisfies the predicate.\<close>

fun find_if :: "('a \<Rightarrow> bool) \<Rightarrow> 'a list \<Rightarrow> nat option" where
  "find_if p [] = None"
| "find_if p (x # xs) = (if p x then Some 0 else map_option Suc (find_if p xs))"

text \<open>Lines 172 to 193: the component named like the transport variable, when there is one.\<close>

definition set_or_update_component ::
  "Status \<Rightarrow> 64 word \<Rightarrow> int \<Rightarrow> string \<Rightarrow> AqueousSolution \<times> real list list
   \<Rightarrow> error + AqueousSolution \<times> real list list" where
  "set_or_update_component status global_id transport_process_id transport_process_variable st =
     (case st of (aqueous_solution, process_solutions) \<Rightarrow>
        let transport_process_solution = process_solutions ! nat transport_process_id
        in case find_if (\<lambda>c. comp_name c = transport_process_variable)
                  (components aqueous_solution) of
             None \<Rightarrow> Inr st
           | Some k \<Rightarrow>
               (case status of
                  SettingAqueousSolutions \<Rightarrow>
                    (case vector_get transport_process_solution global_id of
                       Inl e \<Rightarrow> Inl e
                     | Inr x \<Rightarrow>
                         Inr (aqueous_solution
                                \<lparr>components :=
                                   list_update (components aqueous_solution) k
                                     ((components aqueous_solution ! k)\<lparr>comp_amount := x\<rparr>)\<rparr>,
                              process_solutions))
                | UpdatingProcessSolutions \<Rightarrow>
                    (case vector_set transport_process_solution global_id
                            (comp_amount (components aqueous_solution ! k)) of
                       Inl e \<Rightarrow> Inl e
                     | Inr v \<Rightarrow>
                         Inr (aqueous_solution,
                              process_solutions[nat transport_process_id := v]))))"

text \<open>
  Lines 195 to 216: the transport variable named \<^verbatim>\<open>H\<close>. \<open>log10_std\<close> and \<open>pow_std\<close> are
  \<^verbatim>\<open>std::log10\<close> and \<^verbatim>\<open>std::pow\<close> of the C++ library on \<^verbatim>\<open>double\<close>: what they return is
  the rounded value, so nothing is assumed of them here.
\<close>

definition set_or_update_hydrogen ::
  "(real \<Rightarrow> real) \<Rightarrow> (real \<Rightarrow> real \<Rightarrow> real) \<Rightarrow> Status \<Rightarrow> 64 word \<Rightarrow> int \<Rightarrow> string
   \<Rightarrow> AqueousSolution \<times> real list list \<Rightarrow> error + AqueousSolution \<times> real list list" where
  "set_or_update_hydrogen log10_std pow_std status global_id transport_process_id
     transport_process_variable st =
     (case st of (aqueous_solution, process_solutions) \<Rightarrow>
        let transport_process_solution = process_solutions ! nat transport_process_id
        in if transport_process_variable = ''H'' then
             (case status of
                SettingAqueousSolutions \<Rightarrow>
                  (case vector_get transport_process_solution global_id of
                     Inl e \<Rightarrow> Inl e
                   | Inr x \<Rightarrow> Inr (aqueous_solution\<lparr>pH := - log10_std x\<rparr>, process_solutions))
              | UpdatingProcessSolutions \<Rightarrow>
                  (let hydrogen_concentration = pow_std 10 (- pH aqueous_solution)
                   in case vector_set transport_process_solution global_id
                             hydrogen_concentration of
                        Inl e \<Rightarrow> Inl e
                      | Inr v \<Rightarrow>
                          Inr (aqueous_solution,
                               process_solutions[nat transport_process_id := v])))
           else Inr st)"

text \<open>
  The body of the loop over the transport process id map, lines 161 to 217: the two
  \<^verbatim>\<open>if\<close> statements run one after the other.
\<close>

definition process_entry ::
  "(real \<Rightarrow> real) \<Rightarrow> (real \<Rightarrow> real \<Rightarrow> real) \<Rightarrow> Status \<Rightarrow> 64 word
   \<Rightarrow> AqueousSolution \<times> real list list \<Rightarrow> int \<times> string
   \<Rightarrow> error + AqueousSolution \<times> real list list" where
  "process_entry log10_std pow_std status global_id st process_id_to_component_name_map_element =
     (let transport_process_id = fst process_id_to_component_name_map_element;
          transport_process_variable = snd process_id_to_component_name_map_element
      in if transport_process_id < 0 \<or> int (length (snd st)) \<le> transport_process_id
         then Inl OutOfBounds
         else
           (case set_or_update_component status global_id transport_process_id
                   transport_process_variable st of
              Inl e \<Rightarrow> Inl e
            | Inr st' \<Rightarrow>
                set_or_update_hydrogen log10_std pow_std status global_id transport_process_id
                  transport_process_variable st'))"

text \<open>The body of the loop over the chemical systems, lines 152 to 218.\<close>

definition process_system ::
  "(real \<Rightarrow> real) \<Rightarrow> (real \<Rightarrow> real \<Rightarrow> real) \<Rightarrow> Status
   \<Rightarrow> PhreeqcIO \<times> real list list \<Rightarrow> nat \<Rightarrow> error + PhreeqcIO \<times> real list list" where
  "process_system log10_std pow_std status st local_id =
     (case st of (io, process_solutions) \<Rightarrow>
        if length (chemical_system_map io) \<le> local_id then Inl OutOfBounds
        else if length (aqueous_solutions io) \<le> local_id then Inl OutOfBounds
        else
          let global_id = chemical_system_map io ! local_id;
              aqueous_solution = aqueous_solutions io ! local_id
          in case for_each (process_entry log10_std pow_std status global_id)
                    (process_id_to_component_name_map io)
                    (aqueous_solution, process_solutions) of
               Inl e \<Rightarrow> Inl e
             | Inr (aqueous_solution', process_solutions') \<Rightarrow>
                 Inr (io\<lparr>aqueous_solutions :=
                           list_update (aqueous_solutions io) local_id aqueous_solution'\<rparr>,
                      process_solutions'))"

definition setAqueousSolutionsOrUpdateProcessSolutions ::
  "(real \<Rightarrow> real) \<Rightarrow> (real \<Rightarrow> real \<Rightarrow> real) \<Rightarrow> Status
   \<Rightarrow> PhreeqcIO \<times> real list list \<Rightarrow> error + PhreeqcIO \<times> real list list" where
  "setAqueousSolutionsOrUpdateProcessSolutions log10_std pow_std status st =
     for_each (process_system log10_std pow_std status)
       [0..<unat (num_chemical_systems (fst st))] st"

subsection \<open>The result deserializer: \<^verbatim>\<open>operator>>(std::istream&, PhreeqcIO&)\<close>\<close>

text \<open>
  An input stream is the characters not yet read and the two state bits the operator
  can set. \<^verbatim>\<open>good()\<close> is that neither is set.
\<close>

record istream =
  buffer :: string
  eofbit :: bool
  failbit :: bool

definition good :: "istream \<Rightarrow> bool" where
  "good ins = (\<not> eofbit ins \<and> \<not> failbit ins)"

definition newline :: char where
  "newline = CHR 0x0A"

text \<open>
  \<^verbatim>\<open>in.ignore(std::numeric_limits<std::streamsize>::max(), '\n')\<close>: on a stream that is not
  good the sentry sets \<^verbatim>\<open>failbit\<close> and nothing is read; otherwise characters are discarded
  up to and including the next newline, and \<^verbatim>\<open>eofbit\<close> is set when the input ends first.
\<close>

definition ignore_line :: "istream \<Rightarrow> istream" where
  "ignore_line ins =
     (if \<not> good ins then ins\<lparr>failbit := True\<rparr>
      else if newline \<in> set (buffer ins)
      then ins\<lparr>buffer := tl (dropWhile (\<lambda>c. c \<noteq> newline) (buffer ins))\<rparr>
      else ins\<lparr>buffer := [], eofbit := True\<rparr>)"

text \<open>
  \<^verbatim>\<open>std::getline(in, line)\<close>, with the line when the stream has not failed: characters up
  to the next newline, which is read and dropped, or up to the end of the input, which
  sets \<^verbatim>\<open>eofbit\<close>; \<^verbatim>\<open>failbit\<close> is set when no character at all could be read.
\<close>

definition getline :: "istream \<Rightarrow> string option \<times> istream" where
  "getline ins =
     (if \<not> good ins then (None, ins\<lparr>failbit := True\<rparr>)
      else if newline \<in> set (buffer ins)
      then (Some (takeWhile (\<lambda>c. c \<noteq> newline) (buffer ins)),
            ins\<lparr>buffer := tl (dropWhile (\<lambda>c. c \<noteq> newline) (buffer ins))\<rparr>)
      else if buffer ins = [] then (None, ins\<lparr>eofbit := True, failbit := True\<rparr>)
      else (Some (buffer ins), ins\<lparr>buffer := [], eofbit := True\<rparr>))"

text \<open>\<^verbatim>\<open>boost::is_any_of("\t ")\<close>.\<close>

definition is_tab_or_space :: "char \<Rightarrow> bool" where
  "is_tab_or_space c = (c = CHR 0x09 \<or> c = CHR '' '')"

text \<open>\<^verbatim>\<open>boost::trim_if\<close>: the characters that satisfy the predicate go from both ends.\<close>

definition trim_if :: "(char \<Rightarrow> bool) \<Rightarrow> string \<Rightarrow> string" where
  "trim_if p s = rev (dropWhile p (rev (dropWhile p s)))"

text \<open>
  \<^verbatim>\<open>boost::algorithm::split\<close> with \<^verbatim>\<open>token_compress_on\<close>: the tokens are the parts between
  maximal runs of separators; an input without a separator is one token, also when it
  is empty.
\<close>

function split_compress :: "(char \<Rightarrow> bool) \<Rightarrow> string \<Rightarrow> string list" where
  "split_compress p s =
     (let token = takeWhile (\<lambda>c. \<not> p c) s;
          rest = dropWhile (\<lambda>c. \<not> p c) s
      in if rest = [] then [token] else token # split_compress p (dropWhile p rest))"
  by pat_completeness auto
termination
proof (relation "measure (\<lambda>(p, s). length s)")
  show "wf (measure (\<lambda>(p, s). length s))" by simp
next
  fix p :: "char \<Rightarrow> bool" and s token rest
  assume rest: "rest = dropWhile (\<lambda>c. \<not> p c) s" and ne: "rest \<noteq> []"
  have "p (hd rest)"
    using hd_dropWhile [of "\<lambda>c. \<not> p c" s] ne rest by simp
  then have "length (dropWhile p rest) < length rest"
    using ne by (cases rest) (auto simp: le_imp_less_Suc length_dropWhile_le)
  also have "length rest \<le> length s"
    by (simp add: rest length_dropWhile_le)
  finally show "((p, dropWhile p rest), (p, s)) \<in> measure (\<lambda>(p, s). length s)"
    by simp
qed

declare split_compress.simps [simp del]

text \<open>Lines 446 to 448.\<close>

definition tokens :: "string \<Rightarrow> string list" where
  "tokens line = split_compress is_tab_or_space (trim_if is_tab_or_space line)"


text \<open>
  \<^verbatim>\<open>std::stod\<close> is a parameter \<open>stod\<close> of the functions below: it returns the value, or
  the exception it throws. Lines 449 to 478: the columns that are not dropped are
  converted in order, and the first failure is fatal.
\<close>

definition accept_item ::
  "(string \<Rightarrow> stod_failure + real) \<Rightarrow> int list \<Rightarrow> 64 word \<Rightarrow> string list
   \<Rightarrow> real list \<Rightarrow> nat \<Rightarrow> error + real list" where
  "accept_item stod dropped_ids global_id items accepted item_id =
     (if int item_id \<in> set dropped_ids then Inr accepted
      else
        (case stod (items ! item_id) of
           Inl failure \<Rightarrow>
             Inl (ConversionFailure failure (items ! item_id) global_id (int item_id))
         | Inr value \<Rightarrow> Inr (accepted @ [value])))"

definition accept_items ::
  "(string \<Rightarrow> stod_failure + real) \<Rightarrow> int list \<Rightarrow> 64 word \<Rightarrow> string list
   \<Rightarrow> error + real list" where
  "accept_items stod dropped_ids global_id items =
     for_each (accept_item stod dropped_ids global_id items) [0..<length items] []"

text \<open>
  Modelled from the spec: \<^verbatim>\<open>BaseLib::findElementOrError\<close> is declared in
  \<^verbatim>\<open>BaseLib/Algorithm.h\<close>. Name lookup returns the first element that satisfies the
  predicate, here its position, and fails with the given message when there is none.
\<close>

fun findElementOrError :: "('a \<Rightarrow> bool) \<Rightarrow> string \<Rightarrow> 'a list \<Rightarrow> error + nat" where
  "findElementOrError p msg [] = Inl (NotFound msg)"
| "findElementOrError p msg (x # xs) =
     (if p x then Inr 0
      else (case findElementOrError p msg xs of Inl e \<Rightarrow> Inl e | Inr k \<Rightarrow> Inr (Suc k)))"

definition quoted :: "string \<Rightarrow> string" where
  "quoted name = [CHR 0x27] @ name @ [CHR 0x27] @ ''.''"

text \<open>
  The body of the loop over the accepted values, lines 487 to 558. \<open>ndebug\<close> says that
  the program was compiled with \<^verbatim>\<open>NDEBUG\<close>, which removes every \<^verbatim>\<open>assert\<close>. The
  references \<^verbatim>\<open>aqueous_solution\<close> and \<^verbatim>\<open>components\<close> were taken before the loop, for an
  index in range.
\<close>

definition route_item ::
  "bool \<Rightarrow> nat \<Rightarrow> 64 word \<Rightarrow> real list \<Rightarrow> PhreeqcIO \<Rightarrow> nat \<Rightarrow> error + PhreeqcIO" where
  "route_item ndebug local_id global_id accepted io item_id =
     (if length (accepted_items (output' io)) \<le> item_id then Inl OutOfBounds
      else
        let accepted_item = accepted_items (output' io) ! item_id;
            name = item_name accepted_item;
            x = accepted ! item_id;
            aqueous_solution = aqueous_solutions io ! local_id
        in case item_type accepted_item of
             ItemType_pH \<Rightarrow>
               Inr (io\<lparr>aqueous_solutions :=
                         list_update (aqueous_solutions io) local_id
                           (aqueous_solution\<lparr>pH := x\<rparr>)\<rparr>)
           | ItemType_pe \<Rightarrow>
               Inr (io\<lparr>aqueous_solutions :=
                         list_update (aqueous_solutions io) local_id
                           (aqueous_solution\<lparr>pe := x\<rparr>)\<rparr>)
           | ItemType_Component \<Rightarrow>
               (case findElementOrError (\<lambda>item. comp_name item = name)
                       (''Could not find component '' @ quoted name)
                       (components aqueous_solution) of
                  Inl e \<Rightarrow> Inl e
                | Inr k \<Rightarrow>
                    Inr (io\<lparr>aqueous_solutions :=
                              list_update (aqueous_solutions io) local_id
                                (aqueous_solution\<lparr>components :=
                                   list_update (components aqueous_solution) k
                                     ((components aqueous_solution ! k)
                                        \<lparr>comp_amount := x\<rparr>)\<rparr>)\<rparr>))
           | ItemType_EquilibriumPhase \<Rightarrow>
               (case findElementOrError (\<lambda>item. ep_name item = name)
                       (''Could not find equilibrium phase '' @ quoted name)
                       (equilibrium_phases io) of
                  Inl e \<Rightarrow> Inl e
                | Inr k \<Rightarrow>
                    (case vector_set (ep_amount (equilibrium_phases io ! k)) global_id x of
                       Inl e \<Rightarrow> Inl e
                     | Inr v \<Rightarrow>
                         Inr (io\<lparr>equilibrium_phases :=
                                   list_update (equilibrium_phases io) k
                                     ((equilibrium_phases io ! k)\<lparr>ep_amount := v\<rparr>)\<rparr>)))
           | ItemType_KineticReactant \<Rightarrow>
               (case findElementOrError (\<lambda>item. kr_name item = name)
                       (''Could not find kinetic reactant '' @ quoted name)
                       (kinetic_reactants io) of
                  Inl e \<Rightarrow> Inl e
                | Inr k \<Rightarrow>
                    (case vector_set (kr_amount (kinetic_reactants io ! k)) global_id x of
                       Inl e \<Rightarrow> Inl e
                     | Inr v \<Rightarrow>
                         Inr (io\<lparr>kinetic_reactants :=
                                   list_update (kinetic_reactants io) k
                                     ((kinetic_reactants io ! k)\<lparr>kr_amount := v\<rparr>)\<rparr>)))
           | ItemType_SecondaryVariable \<Rightarrow>
               (case user_punch io of
                  None \<Rightarrow> if ndebug then Inl NullDereference else Inl AssertionFailure
                | Some up \<Rightarrow>
                    (case findElementOrError (\<lambda>item. sv_name item = name)
                            (''Could not find secondary variable '' @ quoted name)
                            (secondary_variables up) of
                       Inl e \<Rightarrow> Inl e
                     | Inr k \<Rightarrow>
                         (case vector_set (sv_value (secondary_variables up ! k)) global_id x of
                            Inl e \<Rightarrow> Inl e
                          | Inr v \<Rightarrow>
                              Inr (io\<lparr>user_punch :=
                                        Some (up\<lparr>secondary_variables :=
                                          list_update (secondary_variables up) k
                                            ((secondary_variables up ! k)
                                               \<lparr>sv_value := v\<rparr>)\<rparr>)\<rparr>)))))"

text \<open>
  Lines 444 to 558: one data row of the system \<open>local_id\<close>. The \<^verbatim>\<open>assert\<close> of line 479
  compares the number of converted values with the length of the schema; the loop that
  follows runs over the converted values.
\<close>

definition process_row ::
  "(string \<Rightarrow> stod_failure + real) \<Rightarrow> bool \<Rightarrow> nat \<Rightarrow> 64 word \<Rightarrow> PhreeqcIO \<Rightarrow> string
   \<Rightarrow> error + PhreeqcIO" where
  "process_row stod ndebug local_id global_id io line =
     (let items = tokens line
      in case accept_items stod (dropped_item_ids (output' io)) global_id items of
           Inl e \<Rightarrow> Inl e
         | Inr accepted \<Rightarrow>
             if \<not> ndebug \<and> length accepted \<noteq> length (accepted_items (output' io))
             then Inl AssertionFailure
             else if length (aqueous_solutions io) \<le> local_id then Inl OutOfBounds
             else for_each (route_item ndebug local_id global_id accepted)
                    [0..<length accepted] io)"

definition num_skipped_lines :: "PhreeqcIO \<Rightarrow> nat" where
  "num_skipped_lines io = (if surface io = [] then 1 else 2)"

text \<open>The body of the loop over the chemical systems, lines 426 to 559.\<close>

definition read_system ::
  "(string \<Rightarrow> stod_failure + real) \<Rightarrow> bool \<Rightarrow> PhreeqcIO \<times> istream \<Rightarrow> nat
   \<Rightarrow> error + PhreeqcIO \<times> istream" where
  "read_system stod ndebug st local_id =
     (case st of (io, ins) \<Rightarrow>
        if length (chemical_system_map io) \<le> local_id then Inl OutOfBounds
        else
          let global_id = chemical_system_map io ! local_id;
              ins1 = (ignore_line ^^ num_skipped_lines io) ins
          in case getline ins1 of
               (None, ins2) \<Rightarrow> Inl (ReadFailure global_id)
             | (Some line, ins2) \<Rightarrow>
                 (case process_row stod ndebug local_id global_id io line of
                    Inl e \<Rightarrow> Inl e
                  | Inr io' \<Rightarrow> Inr (io', ins2)))"

text \<open>The operator: the headline is skipped, then the systems are read in order.\<close>

definition deserialize ::
  "(string \<Rightarrow> stod_failure + real) \<Rightarrow> bool \<Rightarrow> PhreeqcIO \<times> istream
   \<Rightarrow> error + PhreeqcIO \<times> istream" where
  "deserialize stod ndebug st =
     for_each (read_system stod ndebug) [0..<unat (num_chemical_systems (fst st))]
       (fst st, ignore_line (snd st))"

text \<open>
  A conversion for concrete rows: on a token that starts with decimal digits it returns
  the number they denote, as \<^verbatim>\<open>std::stod\<close> does on a token of digits only; on any other
  token it fails as \<^verbatim>\<open>std::stod\<close> does on a token that starts no number.
\<close>

definition is_digit :: "char \<Rightarrow> bool" where
  "is_digit c = (c \<in> set ''0123456789'')"

definition stod_digits :: "string \<Rightarrow> stod_failure + real" where
  "stod_digits s =
     (let digits = takeWhile is_digit s
      in if digits = [] then Inl InvalidArgument
         else Inr (real (foldl (\<lambda>n c. 10 * n + (of_char c - 48)) 0 digits)))"

subsection \<open>Vocabulary of the properties\<close>

text \<open>
  The integer keys of a script: every string literal that is directly followed by a
  \<^verbatim>\<open>std::size_t\<close>, with that number, in the order of writing.
\<close>

definition key_at :: "fragment \<Rightarrow> fragment list \<Rightarrow> (string \<times> 64 word) list" where
  "key_at f fs =
     (case f of
        Lit s \<Rightarrow> (case fs of Num n # _ \<Rightarrow> [(s, n)] | _ \<Rightarrow> [])
      | _ \<Rightarrow> [])"

fun keyed :: "fragment list \<Rightarrow> (string \<times> 64 word) list" where
  "keyed [] = []"
| "keyed (f # fs) = key_at f fs @ keyed fs"

definition starts_with_Num :: "fragment list \<Rightarrow> bool" where
  "starts_with_Num fs = (case fs of Num n # _ \<Rightarrow> True | _ \<Rightarrow> False)"

text \<open>
  The keywords that carry the number of a system in its block, for the blocks the
  configuration asks for.
\<close>

definition block_keywords :: "PhreeqcIO \<Rightarrow> string list" where
  "block_keywords io =
     [''SOLUTION '', ''USE solution '']
     @ (if equilibrium_phases io \<noteq> [] then [''EQUILIBRIUM_PHASES ''] else [])
     @ (if kinetic_reactants io \<noteq> [] then [''KINETICS ''] else [])
     @ (if surface io \<noteq> [] then [''SURFACE '', ''SAVE solution ''] else [])"

definition is_block_key :: "string \<times> 64 word \<Rightarrow> bool" where
  "is_block_key kn = (fst kn \<noteq> ''-equilibrate with solution '')"

definition is_equilibrate_key :: "string \<times> 64 word \<Rightarrow> bool" where
  "is_equilibrate_key kn = (fst kn = ''-equilibrate with solution '')"

text \<open>
  The keys of the block of one system, as the lemmas below compute them from
  \<open>write_system\<close>. Without a dump and with surface sites \<open>write_system\<close> fails, so the value
  of \<open>equilibrate_index\<close> for \<open>None\<close> is never a key of a script.
\<close>

definition equilibrate_index :: "PhreeqcIO \<Rightarrow> 64 word \<Rightarrow> 64 word" where
  "equilibrate_index io g =
     (case dump io of
        None \<Rightarrow> g + 1
      | Some d \<Rightarrow> if aqueous_solutions_prev d = [] then g + 1 else num_chemical_systems io + g + 1)"

definition system_keys :: "PhreeqcIO \<Rightarrow> 64 word \<Rightarrow> (string \<times> 64 word) list" where
  "system_keys io g =
     [(''SOLUTION '', g + 1), (''USE solution '', g + 1)]
     @ (if equilibrium_phases io \<noteq> [] then [(''EQUILIBRIUM_PHASES '', g + 1)] else [])
     @ (if kinetic_reactants io \<noteq> [] then [(''KINETICS '', g + 1)] else [])
     @ (if surface io \<noteq> [] then
          [(''SURFACE '', g + 1), (''-equilibrate with solution '', equilibrate_index io g),
           (''SAVE solution '', g + 1)]
        else [])"

text \<open>
  A configuration for concrete runs: two systems under the index map \<open>[1, 0]\<close>, a schema
  of pH and one equilibrium phase with column 0 dropped, surface sites and a dump. The
  second one is the same without the dump.
\<close>

definition two_systems :: PhreeqcIO where
  "two_systems =
     \<lparr>num_chemical_systems = 2,
      chemical_system_map = [1, 0],
      knobs = ''KNOBS'',
      output' = \<lparr>accepted_items =
                   [\<lparr>item_name = ''pH'', item_type = ItemType_pH\<rparr>,
                    \<lparr>item_name = ''Calcite'', item_type = ItemType_EquilibriumPhase\<rparr>],
                 dropped_item_ids = [0]\<rparr>,
      user_punch = None,
      reaction_rates = [],
      aqueous_solutions =
        [\<lparr>pH = 7, pe = 4, components = [\<lparr>comp_name = ''H'', comp_amount = 1\<rparr>]\<rparr>,
         \<lparr>pH = 7, pe = 4, components = [\<lparr>comp_name = ''H'', comp_amount = 1\<rparr>]\<rparr>],
      equilibrium_phases = [\<lparr>ep_name = ''Calcite'', ep_amount = [0, 0]\<rparr>],
      kinetic_reactants = [],
      surface = [''Hfo_w''],
      dump = Some \<lparr>aqueous_solutions_prev = [''prev 0'', ''prev 1'']\<rparr>,
      dt = 1,
      process_id_to_component_name_map = [(0, ''H'')]\<rparr>"

text \<open>
  The sizes under which no index of the serializer, and of the pass over the process
  solutions, is out of range.
\<close>

definition prev_in_range :: "PhreeqcIO \<Rightarrow> bool" where
  "prev_in_range io =
     (case dump io of
        None \<Rightarrow> True
      | Some d \<Rightarrow> aqueous_solutions_prev d = []
          \<or> unat (num_chemical_systems io) \<le> length (aqueous_solutions_prev d))"

definition systems_in_range :: "PhreeqcIO \<Rightarrow> bool" where
  "systems_in_range io =
     (unat (num_chemical_systems io) \<le> length (chemical_system_map io)
      \<and> unat (num_chemical_systems io) \<le> length (aqueous_solutions io))"

definition no_dump :: PhreeqcIO where
  "no_dump = two_systems\<lparr>dump := None\<rparr>"

definition solutions_in_range :: "PhreeqcIO \<Rightarrow> real list list \<Rightarrow> bool" where
  "solutions_in_range io process_solutions =
     (systems_in_range io
      \<and> list_all
          (\<lambda>e. 0 \<le> fst e \<and> nat (fst e) < length process_solutions
             \<and> list_all
                 (\<lambda>local_id. unat (chemical_system_map io ! local_id)
                    < length (process_solutions ! nat (fst e)))
                 [0..<unat (num_chemical_systems io)])
          (process_id_to_component_name_map io))"

text \<open>
  A stream at the start of a file of lines, each ended by a newline and with none inside.
\<close>

definition result_file :: "string list \<Rightarrow> istream" where
  "result_file ls = \<lparr>buffer = concat (map (\<lambda>l. l @ [newline]) ls), eofbit = False, failbit = False\<rparr>"

definition no_newline :: "string \<Rightarrow> bool" where
  "no_newline l = (newline \<notin> set l)"

text \<open>What reading a row leaves as it is.\<close>

definition same_configuration :: "PhreeqcIO \<Rightarrow> PhreeqcIO \<Rightarrow> bool" where
  "same_configuration io io' =
     (num_chemical_systems io' = num_chemical_systems io
      \<and> chemical_system_map io' = chemical_system_map io
      \<and> output' io' = output' io
      \<and> surface io' = surface io
      \<and> length (aqueous_solutions io') = length (aqueous_solutions io))"

text \<open>
  The result table as the specification describes it: after the header line, for each
  system \<open>k\<close> lines to skip and then one data row.
\<close>

function data_rows :: "nat \<Rightarrow> string list \<Rightarrow> string list" where
  "data_rows k rows =
     (case drop k rows of [] \<Rightarrow> [] | row # rest \<Rightarrow> row # data_rows k rest)"
  by pat_completeness auto
termination
proof (relation "measure (\<lambda>(k, rows). length rows)")
  show "wf (measure (\<lambda>(k, rows). length rows))" by simp
next
  fix k :: nat and rows :: "string list" and row rest
  assume "drop k rows = row # rest"
  then have "length (row # rest) \<le> length rows"
    by (metis diff_le_self length_drop)
  then show "((k, rest), (k, rows)) \<in> measure (\<lambda>(k, rows). length rows)"
    by simp
qed

declare data_rows.simps [simp del]

text \<open>
  The body of the loop over the systems from the data row on: the lookup of the global
  id in line 428 and lines 444 to 558.
\<close>

definition read_row ::
  "(string \<Rightarrow> stod_failure + real) \<Rightarrow> bool \<Rightarrow> PhreeqcIO \<Rightarrow> nat \<times> string \<Rightarrow> error + PhreeqcIO" where
  "read_row stod ndebug io row =
     (if length (chemical_system_map io) \<le> fst row then Inl OutOfBounds
      else process_row stod ndebug (fst row) (chemical_system_map io ! fst row) io (snd row))"

text \<open>
  Column \<open>i\<close> is the first column of the row that is not dropped and that \<open>stod\<close> does not
  convert.
\<close>

definition first_failure ::
  "(string \<Rightarrow> stod_failure + real) \<Rightarrow> int list \<Rightarrow> string list \<Rightarrow> nat \<Rightarrow> bool" where
  "first_failure stod dropped_ids items i =
     (i < length items \<and> int i \<notin> set dropped_ids \<and> isl (stod (items ! i))
      \<and> list_all (\<lambda>j. int j \<in> set dropped_ids \<or> \<not> isl (stod (items ! j))) [0..<i])"

text \<open>
  Two lines with the same number of columns and the same token in every column that is
  not dropped; two streams that are equal, or are files of lines that agree in this way.
\<close>

definition rows_agree :: "int list \<Rightarrow> string \<Rightarrow> string \<Rightarrow> bool" where
  "rows_agree dropped_ids line1 line2 =
     (length (tokens line1) = length (tokens line2)
      \<and> list_all (\<lambda>i. int i \<in> set dropped_ids \<or> tokens line1 ! i = tokens line2 ! i)
          [0..<length (tokens line1)])"

definition tables_agree :: "int list \<Rightarrow> istream \<Rightarrow> istream \<Rightarrow> bool" where
  "tables_agree dropped_ids ins1 ins2 =
     (ins1 = ins2
      \<or> (\<exists>ls1 ls2. ins1 = result_file ls1 \<and> ins2 = result_file ls2
            \<and> list_all no_newline ls1 \<and> list_all no_newline ls2
            \<and> list_all2 (rows_agree dropped_ids) ls1 ls2))"

definition states_agree ::
  "PhreeqcIO \<Rightarrow> PhreeqcIO \<times> istream \<Rightarrow> PhreeqcIO \<times> istream \<Rightarrow> bool" where
  "states_agree io st1 st2 =
     (fst st1 = fst st2 \<and> same_configuration io (fst st1)
      \<and> tables_agree (dropped_item_ids (output' io)) (snd st1) (snd st2))"

text \<open>
  The entities whose amount is a vector over all systems, by the item type that routes
  to them: the name and the vector of each, in the order of the configuration.
\<close>

definition array_entities :: "ItemType \<Rightarrow> PhreeqcIO \<Rightarrow> (string \<times> real list) list" where
  "array_entities t io =
     (case t of
        ItemType_EquilibriumPhase \<Rightarrow> map (\<lambda>e. (ep_name e, ep_amount e)) (equilibrium_phases io)
      | ItemType_KineticReactant \<Rightarrow> map (\<lambda>e. (kr_name e, kr_amount e)) (kinetic_reactants io)
      | ItemType_SecondaryVariable \<Rightarrow>
          (case user_punch io of
             None \<Rightarrow> []
           | Some up \<Rightarrow> map (\<lambda>e. (sv_name e, sv_value e)) (secondary_variables up))
      | _ \<Rightarrow> [])"

definition is_array_type :: "ItemType \<Rightarrow> bool" where
  "is_array_type t =
     (t = ItemType_EquilibriumPhase \<or> t = ItemType_KineticReactant
      \<or> t = ItemType_SecondaryVariable)"

text \<open>
  Result files for \<open>two_systems\<close>: a header, then for each system two lines to skip and a
  data row of three columns. \<open>other_rows\<close> differs from \<open>good_rows\<close> in the dropped column,
  \<open>short_rows\<close> lacks a column in the row of the first system, and \<open>bad_rows\<close> has a token
  that is no number in the row of the second.
\<close>

definition header_line :: string where
  "header_line = ''sim pH Calcite''"

definition good_rows :: "string list" where
  "good_rows = [''1 7 0'', ''1 7 0'', ''1 9 3'', ''2 7 0'', ''2 7 0'', ''2 8 5'']"

definition other_rows :: "string list" where
  "other_rows = [''1 7 0'', ''1 7 0'', ''77 9 3'', ''2 7 0'', ''2 7 0'', ''88 8 5'']"

definition short_rows :: "string list" where
  "short_rows = [''1 7 0'', ''1 7 0'', ''1 9'', ''2 7 0'', ''2 7 0'', ''2 8 5'']"

definition bad_rows :: "string list" where
  "bad_rows = [''1 7 0'', ''1 7 0'', ''1 9 3'', ''2 7 0'', ''2 7 0'', ''2 x 5'']"

subsection \<open>Properties of the serializer\<close>

lemma key_at_Lit_Num [simp]: "key_at (Lit s) (Num n # fs) = [(s, n)]"
  by (simp add: key_at_def)

lemma key_at_not_Num: "\<not> starts_with_Num fs \<Longrightarrow> key_at f fs = []"
  by (auto simp: key_at_def starts_with_Num_def split: fragment.splits list.splits)

lemma key_at_not_Lit: "(\<And>s. f \<noteq> Lit s) \<Longrightarrow> key_at f fs = []"
  by (auto simp: key_at_def split: fragment.splits)

lemma key_at_append: "\<not> starts_with_Num ys \<Longrightarrow> key_at f (fs @ ys) = key_at f fs"
  by (cases fs) (auto simp: key_at_def starts_with_Num_def split: fragment.splits list.splits)

lemma keyed_append: "\<not> starts_with_Num ys \<Longrightarrow> keyed (xs @ ys) = keyed xs @ keyed ys"
  by (induction xs) (auto simp: key_at_append)

lemma keyed_no_Num: "(\<And>n. Num n \<notin> set fs) \<Longrightarrow> keyed fs = []"
proof (induction fs)
  case Nil
  then show ?case by simp
next
  case (Cons f fs)
  have "\<not> starts_with_Num fs"
    using Cons.prems by (cases fs) (auto simp: starts_with_Num_def split: fragment.splits)
  then show ?case using Cons by (simp add: key_at_not_Num)
qed

lemma key_at_other [simp]:
  "key_at (Num n) fs = []"
  "key_at (Dbl r) fs = []"
  "key_at (KnobsBlock k) fs = []"
  "key_at (OutputBlock out) fs = []"
  "key_at (UserPunchBlock up) fs = []"
  "key_at (ReactionRateBlock rr) fs = []"
  "key_at (AqueousSolutionBlock aq) fs = []"
  "key_at (PrevSolutionBlock ps) fs = []"
  "key_at (EquilibriumPhasePrint ep g) fs = []"
  "key_at (KineticReactantPrint kr g) fs = []"
  "key_at (SurfaceSiteBlock ss) fs = []"
  "key_at (DumpPrint d g) fs = []"
  by (simp_all add: key_at_def)

lemma key_at_Nil [simp]: "key_at f [] = []"
  by (simp add: key_at_def split: fragment.splits)

lemma starts_with_Num_simps [simp]:
  "\<not> starts_with_Num []"
  "\<not> starts_with_Num (Lit s # fs)"
  "\<not> starts_with_Num (Dbl r # fs)"
  "\<not> starts_with_Num (AqueousSolutionBlock aq # fs)"
  "\<not> starts_with_Num (PrevSolutionBlock ps # fs)"
  "\<not> starts_with_Num (DumpPrint d g # fs)"
  by (simp_all add: starts_with_Num_def)

lemma starts_with_Num_map [simp]:
  "starts_with_Num (map (\<lambda>x. EquilibriumPhasePrint x g) xs @ fs) = (xs = [] \<and> starts_with_Num fs)"
  "starts_with_Num (map (\<lambda>y. KineticReactantPrint y g) ys @ fs) = (ys = [] \<and> starts_with_Num fs)"
  "starts_with_Num (map SurfaceSiteBlock zs @ fs) = (zs = [] \<and> starts_with_Num fs)"
  "starts_with_Num (map ReactionRateBlock rs @ fs) = (rs = [] \<and> starts_with_Num fs)"
  by (cases xs, simp_all add: starts_with_Num_def, cases ys, simp_all, cases zs, simp_all,
      cases rs, simp_all)

lemma keyed_map_print [simp]:
  "keyed (map (\<lambda>x. EquilibriumPhasePrint x g) xs @ fs) = keyed fs"
  "keyed (map (\<lambda>y. KineticReactantPrint y g) ys @ fs) = keyed fs"
  "keyed (map SurfaceSiteBlock zs @ fs) = keyed fs"
  "keyed (map ReactionRateBlock rs @ fs) = keyed fs"
  by (induction xs, simp_all, induction ys, simp_all, induction zs, simp_all,
      induction rs, simp_all)

lemma starts_with_Num_write_prev:
  "write_prev io l = Inr prev \<Longrightarrow> \<not> starts_with_Num fs \<Longrightarrow> \<not> starts_with_Num (prev @ fs)"
  by (auto simp: write_prev_def split: option.splits if_splits)

lemma starts_with_Num_write_equilibrium_phases:
  "\<not> starts_with_Num fs \<Longrightarrow> \<not> starts_with_Num (write_equilibrium_phases io g @ fs)"
  by (simp add: write_equilibrium_phases_def)

lemma starts_with_Num_write_kinetics:
  "\<not> starts_with_Num fs \<Longrightarrow> \<not> starts_with_Num (write_kinetics io g @ fs)"
  by (simp add: write_kinetics_def)

lemma starts_with_Num_write_surface:
  "write_surface io g = Inr surf \<Longrightarrow> \<not> starts_with_Num fs \<Longrightarrow> \<not> starts_with_Num (surf @ fs)"
  by (auto simp: write_surface_def Let_def split: option.splits if_splits)

lemma keyed_write_prev:
  "write_prev io l = Inr prev \<Longrightarrow> \<not> starts_with_Num fs \<Longrightarrow> keyed (prev @ fs) = keyed fs"
  by (auto simp: write_prev_def key_at_not_Num split: option.splits if_splits)

lemma keyed_write_equilibrium_phases:
  "\<not> starts_with_Num fs \<Longrightarrow>
   keyed (write_equilibrium_phases io g @ fs) =
     (if equilibrium_phases io \<noteq> [] then [(''EQUILIBRIUM_PHASES '', g + 1)] else [])
     @ keyed fs"
  by (simp add: write_equilibrium_phases_def key_at_not_Num)

lemma keyed_write_kinetics:
  "\<not> starts_with_Num fs \<Longrightarrow>
   keyed (write_kinetics io g @ fs) =
     (if kinetic_reactants io \<noteq> [] then [(''KINETICS '', g + 1)] else [])
     @ keyed fs"
  by (simp add: write_kinetics_def key_at_not_Num)

lemma keyed_write_surface:
  "write_surface io g = Inr surf \<Longrightarrow> \<not> starts_with_Num fs \<Longrightarrow>
   keyed (surf @ fs) =
     (if surface io \<noteq> [] then
        [(''SURFACE '', g + 1), (''-equilibrate with solution '', equilibrate_index io g),
         (''SAVE solution '', g + 1)]
      else [])
     @ keyed fs"
  by (auto simp: write_surface_def equilibrate_index_def key_at_not_Num Let_def
      split: option.splits if_splits)

lemma write_system_keyed:
  assumes "write_system io os l = Inr os'"
  shows "keyed os' = keyed os @ system_keys io (chemical_system_map io ! l)"
proof -
  obtain prev surf where p: "write_prev io l = Inr prev"
    and s: "write_surface io (chemical_system_map io ! l) = Inr surf"
    and os': "os' = os @ [Lit ''SOLUTION '', Num (chemical_system_map io ! l + 1), Lit nl,
                         AqueousSolutionBlock (aqueous_solutions io ! l), Lit nl]
                      @ prev
                      @ [Lit ''USE solution none'', Lit nl, Lit ''END'', Lit (nl @ nl),
                         Lit ''USE solution '', Num (chemical_system_map io ! l + 1), Lit (nl @ nl)]
                      @ write_equilibrium_phases io (chemical_system_map io ! l)
                      @ write_kinetics io (chemical_system_map io ! l)
                      @ surf
                      @ [Lit ''END'', Lit (nl @ nl)]"
    using assms by (auto simp: write_system_def Let_def split: if_splits sum.splits)
  have "keyed os' = keyed os @ keyed (drop (length os) os')"
    unfolding os' by (subst keyed_append) simp_all
  then show ?thesis
    unfolding os'
    by (simp add: keyed_write_prev [OF p] keyed_write_equilibrium_phases
        keyed_write_kinetics keyed_write_surface [OF s] system_keys_def key_at_not_Num
        starts_with_Num_write_prev [OF p] starts_with_Num_write_equilibrium_phases
        starts_with_Num_write_kinetics starts_with_Num_write_surface [OF s])
qed

lemma for_each_write_system_keyed:
  "for_each (write_system io) ls os = Inr os' \<Longrightarrow>
   keyed os' = keyed os @ concat (map (\<lambda>l. system_keys io (chemical_system_map io ! l)) ls)"
proof (induction ls arbitrary: os)
  case Nil
  then show ?case by simp
next
  case (Cons l ls)
  then obtain os1 where 1: "write_system io os l = Inr os1"
    and 2: "for_each (write_system io) ls os1 = Inr os'"
    by (auto split: sum.splits)
  show ?case
    using Cons.IH [OF 2] write_system_keyed [OF 1] by simp
qed

lemma keyed_write_header: "keyed (write_header io) = []"
  by (rule keyed_no_Num) (auto simp: write_header_def split: option.splits)

lemma keyed_append_write_dump: "keyed (os @ write_dump io) = keyed os"
  by (simp add: keyed_append write_dump_def starts_with_Num_def split: option.splits)

lemma serialize_keyed:
  assumes "serialize io = Inr os"
  shows "keyed os =
    concat (map (\<lambda>l. system_keys io (chemical_system_map io ! l))
      [0..<unat (num_chemical_systems io)])"
proof -
  obtain os1 where 1: "for_each (write_system io) [0..<unat (num_chemical_systems io)]
      (write_header io) = Inr os1" and os: "os = os1 @ write_dump io"
    using assms by (auto simp: serialize_def split: sum.splits)
  show ?thesis
    using for_each_write_system_keyed [OF 1]
    by (simp add: os keyed_append_write_dump keyed_write_header)
qed

lemma filter_concat_map:
  "filter P (concat (map f xs)) = concat (map (\<lambda>x. filter P (f x)) xs)"
  by (induction xs) auto

text \<open>
  Claim C5. Every integer key that the serializer writes after a keyword, other than the
  index of \<^verbatim>\<open>-equilibrate with solution\<close>, is \<open>global_id + 1\<close> of the system whose block it
  is in: in the order of \<open>local_id\<close>, the keys of \<^verbatim>\<open>SOLUTION\<close> and \<^verbatim>\<open>USE solution\<close>, then of
  \<^verbatim>\<open>EQUILIBRIUM_PHASES\<close>, \<^verbatim>\<open>KINETICS\<close>, \<^verbatim>\<open>SURFACE\<close> and \<^verbatim>\<open>SAVE solution\<close> where the block
  is written. The index map is arbitrary, so the key is never \<open>local_id + 1\<close> unless the
  map says so.
\<close>

theorem block_numbering:
  assumes "serialize io = Inr os"
  shows "filter is_block_key (keyed os) =
    concat (map (\<lambda>local_id. map (\<lambda>k. (k, chemical_system_map io ! local_id + 1)) (block_keywords io))
      [0..<unat (num_chemical_systems io)])"
proof -
  have "filter is_block_key (system_keys io g) = map (\<lambda>k. (k, g + 1)) (block_keywords io)" for g
    by (simp add: system_keys_def block_keywords_def is_block_key_def)
  then show ?thesis
    by (simp add: serialize_keyed [OF assms] filter_concat_map)
qed

text \<open>
  With a dump object, the index written after \<^verbatim>\<open>-equilibrate with solution\<close> for the system
  with global id \<open>g\<close> is \<open>N + g + 1\<close> when the dump holds previous solutions and \<open>g + 1\<close>
  when it holds none: the two branches of the conditional of line 346.
\<close>

lemma surface_equilibration_index:
  assumes "serialize io = Inr os" and "dump io = Some d"
  shows "map snd (filter is_equilibrate_key (keyed os)) =
    (if surface io = [] then []
     else map (\<lambda>local_id.
            if aqueous_solutions_prev d = [] then chemical_system_map io ! local_id + 1
            else num_chemical_systems io + chemical_system_map io ! local_id + 1)
          [0..<unat (num_chemical_systems io)])"
proof -
  have "map snd (filter is_equilibrate_key (system_keys io g)) =
    (if surface io = [] then []
     else [if aqueous_solutions_prev d = [] then g + 1 else num_chemical_systems io + g + 1])" for g
    using assms(2) by (simp add: system_keys_def is_equilibrate_key_def equilibrate_index_def)
  then show ?thesis
    by (simp add: serialize_keyed [OF assms(1)] filter_concat_map map_concat comp_def)
qed

lemma write_system_unsafe:
  assumes "l < length (chemical_system_map io)" and "l < length (aqueous_solutions io)"
    and "surface io \<noteq> []" and "dump io = None"
  shows "write_system io os l = Inl NullDereference"
  using assms by (simp add: write_system_def write_prev_def write_surface_def)

lemma write_system_safe:
  assumes "l < unat (num_chemical_systems io)" and "systems_in_range io" and "prev_in_range io"
    and "surface io = [] \<or> dump io \<noteq> None"
  shows "\<exists>os'. write_system io os l = Inr os'"
  using assms
  by (auto simp: write_system_def write_prev_def write_surface_def Let_def
      systems_in_range_def prev_in_range_def split: option.splits)

lemma for_each_write_system_safe:
  assumes "set ls \<subseteq> {..<unat (num_chemical_systems io)}" and "systems_in_range io"
    and "prev_in_range io" and "surface io = [] \<or> dump io \<noteq> None"
  shows "\<exists>os'. for_each (write_system io) ls os = Inr os'"
  using assms(1)
proof (induction ls arbitrary: os)
  case Nil
  then show ?case by simp
next
  case (Cons l ls)
  then have "l < unat (num_chemical_systems io)" by simp
  from write_system_safe [OF this assms(2,3,4)]
  obtain os1 where "write_system io os l = Inr os1" by blast
  moreover obtain os' where "for_each (write_system io) ls os1 = Inr os'"
    using Cons by auto
  ultimately show ?case by simp
qed

text \<open>
  Claim C9. With all indices in range, serialization dereferences a null dump exactly
  when surface sites are configured, no dump is, and there is a chemical system;
  in every other case it returns a script.
\<close>

theorem surface_needs_dump:
  assumes "systems_in_range io" and "prev_in_range io"
  shows "if surface io \<noteq> [] \<and> dump io = None \<and> num_chemical_systems io \<noteq> 0
         then serialize io = Inl NullDereference
         else (\<exists>os. serialize io = Inr os)"
proof (cases "surface io \<noteq> [] \<and> dump io = None \<and> num_chemical_systems io \<noteq> 0")
  case True
  then have "0 < unat (num_chemical_systems io)"
    by (simp add: unat_gt_0)
  then have upt: "[0..<unat (num_chemical_systems io)] = 0 # [1..<unat (num_chemical_systems io)]"
    by (simp add: upt_conv_Cons)
  have "write_system io (write_header io) 0 = Inl NullDereference"
    using True assms(1) \<open>0 < unat (num_chemical_systems io)\<close>
    by (intro write_system_unsafe) (auto simp: systems_in_range_def)
  then show ?thesis
    using True by (simp add: serialize_def upt)
next
  case False
  then consider "num_chemical_systems io = 0" | "surface io = [] \<or> dump io \<noteq> None"
    by auto
  then have "\<exists>os. for_each (write_system io) [0..<unat (num_chemical_systems io)]
      (write_header io) = Inr os"
  proof cases
    case 1
    then show ?thesis by simp
  next
    case 2
    show ?thesis
      by (rule for_each_write_system_safe [OF _ assms 2]) auto
  qed
  then show ?thesis
    using False by (auto simp: serialize_def)
qed

lemma serialize_two_systems: "\<exists>os. serialize two_systems = Inr os"
  by (simp add: serialize_def two_systems_def write_system_def write_prev_def write_surface_def upt_rec)

lemma serialize_no_dump: "serialize no_dump = Inl NullDereference"
  by (simp add: serialize_def no_dump_def two_systems_def write_system_def write_prev_def write_surface_def upt_rec)

theorem block_numbering_witness:
  "\<exists>os. serialize two_systems = Inr os \<and>
     filter is_block_key (keyed os) =
       [(''SOLUTION '', 2), (''USE solution '', 2), (''EQUILIBRIUM_PHASES '', 2),
        (''SURFACE '', 2), (''SAVE solution '', 2),
        (''SOLUTION '', 1), (''USE solution '', 1), (''EQUILIBRIUM_PHASES '', 1),
        (''SURFACE '', 1), (''SAVE solution '', 1)]"
proof -
  obtain os where os: "serialize two_systems = Inr os"
    using serialize_two_systems by blast
  show ?thesis
    using block_numbering [OF os] os
    by (simp add: two_systems_def block_keywords_def upt_rec)
qed

lemma surface_equilibration_index_example:
  "\<exists>os. serialize two_systems = Inr os \<and>
     map snd (filter is_equilibrate_key (keyed os)) = [4, 3]"
proof -
  obtain os where os: "serialize two_systems = Inr os"
    using serialize_two_systems by blast
  have d: "dump two_systems = Some \<lparr>aqueous_solutions_prev = [''prev 0'', ''prev 1'']\<rparr>"
    by (simp add: two_systems_def)
  show ?thesis
    using surface_equilibration_index [OF os d] os
    by (simp add: two_systems_def upt_rec)
qed

text \<open>
  Claim C2 at a concrete input. Surface sites are configured and no dump is, so the index
  of each system is to be \<open>g + 1\<close>. Line 346 reads \<^verbatim>\<open>dump->aqueous_solutions_prev\<close> without
  the test of \<^verbatim>\<open>dump\<close> that lines 305 and 360 make: the null pointer is dereferenced and
  no index is written.
\<close>

theorem surface_index_without_dump:
  "dump no_dump = None \<and> surface no_dump \<noteq> [] \<and> serialize no_dump = Inl NullDereference"
  using serialize_no_dump by (simp add: no_dump_def two_systems_def)

theorem surface_needs_dump_witness:
  "systems_in_range no_dump \<and> prev_in_range no_dump \<and> serialize no_dump = Inl NullDereference"
proof -
  have 1: "systems_in_range no_dump" and 2: "prev_in_range no_dump"
    by (simp_all add: systems_in_range_def prev_in_range_def no_dump_def two_systems_def)
  show ?thesis
    using surface_needs_dump [OF 1 2] 1 2
    by (simp add: no_dump_def two_systems_def)
qed

subsection \<open>Properties of setting and updating\<close>

lemma for_each_total:
  assumes "I s"
    and "\<And>s x. x \<in> set xs \<Longrightarrow> I s \<Longrightarrow> \<exists>s'. body s x = Inr s' \<and> I s'"
  shows "\<exists>s'. for_each body xs s = Inr s' \<and> I s'"
  using assms
proof (induction xs arbitrary: s)
  case Nil
  then show ?case by simp
next
  case (Cons x xs)
  obtain s1 where s1: "body s x = Inr s1" "I s1"
    using Cons.prems by (meson list.set_intros(1))
  have "\<exists>s'. for_each body xs s1 = Inr s' \<and> I s'"
    by (rule Cons.IH [OF s1(2)]) (use Cons.prems(2) in auto)
  then show ?case using s1 by simp
qed

lemma process_entry_Setting:
  assumes "process_entry log10_std pow_std SettingAqueousSolutions g (aq, ps) (pid, var) = Inr (aq', ps')"
  shows "ps' = ps"
    and "var = ''H'' \<Longrightarrow> pH aq' = - log10_std (ps ! nat pid ! unat g)"
    and "var \<noteq> ''H'' \<Longrightarrow> pH aq' = pH aq"
  using assms
  by (auto simp: process_entry_def set_or_update_component_def set_or_update_hydrogen_def
      vector_get_def Let_def split: if_splits option.splits sum.splits)

lemma process_entry_Setting_total:
  assumes "0 \<le> pid" and "nat pid < length ps" and "unat g < length (ps ! nat pid)"
  shows "\<exists>aq'. process_entry log10_std pow_std SettingAqueousSolutions g (aq, ps) (pid, var) = Inr (aq', ps)"
  using assms
  by (auto simp: process_entry_def set_or_update_component_def set_or_update_hydrogen_def
      vector_get_def Let_def split: if_splits option.splits sum.splits)

lemma map_length_update_same:
  "(map length xs)[i := length (xs ! i)] = map length xs"
  by (cases "i < length xs") (simp_all add: list_update_same_conv list_update_beyond)

lemma process_entry_Updating:
  assumes "process_entry log10_std pow_std UpdatingProcessSolutions g (aq, ps) (pid, var) = Inr (aq', ps')"
  shows "aq' = aq" and "0 \<le> pid" and "nat pid < length ps"
    and "map length ps' = map length ps"
    and "q \<noteq> nat pid \<Longrightarrow> ps' ! q = ps ! q"
    and "var = ''H'' \<Longrightarrow> ps' = ps[nat pid := (ps ! nat pid)[unat g := pow_std 10 (- pH aq)]]"
  using assms
  by (auto simp: process_entry_def set_or_update_component_def set_or_update_hydrogen_def
      vector_set_def Let_def map_update map_length_update_same
      split: if_splits option.splits sum.splits)

lemma process_entry_Updating_total:
  assumes "0 \<le> pid" and "nat pid < length ps" and "unat g < length (ps ! nat pid)"
  shows "\<exists>ps'. process_entry log10_std pow_std UpdatingProcessSolutions g (aq, ps) (pid, var) = Inr (aq, ps')"
  using assms
  by (auto simp: process_entry_def set_or_update_component_def set_or_update_hydrogen_def
      vector_set_def Let_def split: if_splits option.splits sum.splits)

lemma entries_Setting_ps:
  "for_each (process_entry log10_std pow_std SettingAqueousSolutions g) es (aq, ps) = Inr (aq', ps') \<Longrightarrow> ps' = ps"
proof (induction es arbitrary: aq)
  case Nil
  then show ?case by simp
next
  case (Cons e es)
  then obtain aq1 ps1 where
    1: "process_entry log10_std pow_std SettingAqueousSolutions g (aq, ps) (fst e, snd e) = Inr (aq1, ps1)"
    and 2: "for_each (process_entry log10_std pow_std SettingAqueousSolutions g) es (aq1, ps1) = Inr (aq', ps')"
    by (auto split: sum.splits)
  show ?case
    using process_entry_Setting(1) [OF 1] Cons.IH 2 by simp
qed

lemma entries_Setting_no_H:
  "for_each (process_entry log10_std pow_std SettingAqueousSolutions g) es (aq, ps) = Inr (aq', ps') \<Longrightarrow>
   ''H'' \<notin> snd ` set es \<Longrightarrow> pH aq' = pH aq"
proof (induction es arbitrary: aq)
  case Nil
  then show ?case by simp
next
  case (Cons e es)
  then obtain aq1 ps1 where
    1: "process_entry log10_std pow_std SettingAqueousSolutions g (aq, ps) (fst e, snd e) = Inr (aq1, ps1)"
    and 2: "for_each (process_entry log10_std pow_std SettingAqueousSolutions g) es (aq1, ps1) = Inr (aq', ps')"
    by (auto split: sum.splits)
  have ps1: "ps1 = ps" by (rule process_entry_Setting(1) [OF 1])
  have "snd e \<noteq> ''H''" using Cons.prems(2) by auto
  then have "pH aq1 = pH aq" by (rule process_entry_Setting(3) [OF 1])
  moreover have "pH aq' = pH aq1"
    using Cons.IH [of aq1] 2 Cons.prems(2) by (simp add: ps1)
  ultimately show ?case by simp
qed

lemma entries_Setting_H:
  "for_each (process_entry log10_std pow_std SettingAqueousSolutions g) es (aq, ps) = Inr (aq', ps') \<Longrightarrow>
   distinct (map snd es) \<Longrightarrow> (p, ''H'') \<in> set es \<Longrightarrow>
   pH aq' = - log10_std (ps ! nat p ! unat g)"
proof (induction es arbitrary: aq)
  case Nil
  then show ?case by simp
next
  case (Cons e es)
  then obtain aq1 ps1 where
    1: "process_entry log10_std pow_std SettingAqueousSolutions g (aq, ps) (fst e, snd e) = Inr (aq1, ps1)"
    and 2: "for_each (process_entry log10_std pow_std SettingAqueousSolutions g) es (aq1, ps1) = Inr (aq', ps')"
    by (auto split: sum.splits)
  have ps1: "ps1 = ps" by (rule process_entry_Setting(1) [OF 1])
  show ?case
  proof (cases "(p, ''H'') \<in> set es")
    case True
    then show ?thesis
      using Cons.IH [of aq1] 2 Cons.prems(2) by (simp add: ps1)
  next
    case False
    then have e: "e = (p, ''H'')"
      using Cons.prems(3) by auto
    have "''H'' \<notin> snd ` set es"
      using Cons.prems(2) by (auto simp: e)
    then have "pH aq' = pH aq1"
      using entries_Setting_no_H 2 by (simp add: ps1)
    then show ?thesis
      using process_entry_Setting(2) [OF 1] by (simp add: e)
  qed
qed

lemma entries_Updating:
  assumes "for_each (process_entry log10_std pow_std UpdatingProcessSolutions g) es (aq, ps) = Inr (aq', ps')"
  shows "aq' = aq \<and> map length ps' = map length ps
    \<and> (\<forall>q. int q \<notin> fst ` set es \<longrightarrow> ps' ! q = ps ! q)"
  using assms
proof (induction es arbitrary: ps)
  case Nil
  then show ?case by simp
next
  case (Cons e es)
  then obtain aq1 ps1 where
    1: "process_entry log10_std pow_std UpdatingProcessSolutions g (aq, ps) (fst e, snd e) = Inr (aq1, ps1)"
    and 2: "for_each (process_entry log10_std pow_std UpdatingProcessSolutions g) es (aq1, ps1) = Inr (aq', ps')"
    by (auto split: sum.splits)
  note e = process_entry_Updating [OF 1]
  have IH: "aq' = aq \<and> map length ps' = map length ps1
    \<and> (\<forall>q. int q \<notin> fst ` set es \<longrightarrow> ps' ! q = ps1 ! q)"
    using Cons.IH [of ps1] 2 e(1) by simp
  have "ps' ! q = ps ! q" if "int q \<notin> fst ` set (e # es)" for q
  proof -
    have "q \<noteq> nat (fst e)" using that e(2) by auto
    then have "ps1 ! q = ps ! q" by (rule e(5))
    then show ?thesis using IH that by simp
  qed
  then show ?case using IH e(4) by simp
qed

lemma entries_Updating_H:
  "for_each (process_entry log10_std pow_std UpdatingProcessSolutions g) es (aq, ps) = Inr (aq', ps') \<Longrightarrow>
   distinct (map fst es) \<Longrightarrow> (p, ''H'') \<in> set es \<Longrightarrow> 0 \<le> p \<Longrightarrow>
   ps' ! nat p = (ps ! nat p)[unat g := pow_std 10 (- pH aq)]"
proof (induction es arbitrary: ps)
  case Nil
  then show ?case by simp
next
  case (Cons e es)
  then obtain aq1 ps1 where
    1: "process_entry log10_std pow_std UpdatingProcessSolutions g (aq, ps) (fst e, snd e) = Inr (aq1, ps1)"
    and 2: "for_each (process_entry log10_std pow_std UpdatingProcessSolutions g) es (aq1, ps1) = Inr (aq', ps')"
    by (auto split: sum.splits)
  note e = process_entry_Updating [OF 1]
  show ?case
  proof (cases "e = (p, ''H'')")
    case True
    then have "p \<notin> fst ` set es" using Cons.prems(2) by auto
    moreover have "0 \<le> p" using e(2) True by simp
    ultimately have "int (nat p) \<notin> fst ` set es" by simp
    then have "ps' ! nat p = ps1 ! nat p"
      using entries_Updating [OF 2] by blast
    moreover have "ps1 = ps[nat p := (ps ! nat p)[unat g := pow_std 10 (- pH aq)]]"
      using e(6) True by simp
    moreover have "nat p < length ps" using e(3) True by simp
    ultimately show ?thesis by simp
  next
    case False
    then have in_es: "(p, ''H'') \<in> set es" using Cons.prems(3) by auto
    then have "p \<in> fst ` set es" by force
    then have "fst e \<noteq> p" using Cons.prems(2) by auto
    then have "nat p \<noteq> nat (fst e)" using e(2) Cons.prems(4) by auto
    then have "ps1 ! nat p = ps ! nat p" by (rule e(5))
    then show ?thesis
      using Cons.IH [of ps1] 2 e(1) Cons.prems(2,4) in_es by simp
  qed
qed

lemma process_system_Setting:
  assumes "process_system log10_std pow_std SettingAqueousSolutions (io, ps) l = Inr (io', ps')"
    and "distinct (map snd (process_id_to_component_name_map io))"
    and "(p, ''H'') \<in> set (process_id_to_component_name_map io)"
  shows "ps' = ps \<and> l < length (aqueous_solutions io)
    \<and> (\<exists>aq'. io' = io\<lparr>aqueous_solutions := (aqueous_solutions io)[l := aq']\<rparr>
          \<and> pH aq' = - log10_std (ps ! nat p ! unat (chemical_system_map io ! l)))"
proof -
  obtain aq' where l: "l < length (aqueous_solutions io)"
    and 1: "for_each (process_entry log10_std pow_std SettingAqueousSolutions (chemical_system_map io ! l))
        (process_id_to_component_name_map io) (aqueous_solutions io ! l, ps) = Inr (aq', ps')"
    and io': "io' = io\<lparr>aqueous_solutions := (aqueous_solutions io)[l := aq']\<rparr>"
    using assms(1)
    by (auto simp: process_system_def Let_def split: if_splits sum.splits prod.splits)
  show ?thesis
    using entries_Setting_ps [OF 1] entries_Setting_H [OF 1 assms(2,3)] l io' by blast
qed

lemma systems_Setting:
  assumes "for_each (process_system log10_std pow_std SettingAqueousSolutions) ls (io, ps) = Inr (io', ps')"
    and "distinct ls"
    and "distinct (map snd (process_id_to_component_name_map io))"
    and "(p, ''H'') \<in> set (process_id_to_component_name_map io)"
  shows "ps' = ps \<and>
    (\<exists>aqs'. io' = io\<lparr>aqueous_solutions := aqs'\<rparr>
       \<and> (\<forall>l \<in> set ls. pH (aqs' ! l) = - log10_std (ps ! nat p ! unat (chemical_system_map io ! l)))
       \<and> (\<forall>l. l \<notin> set ls \<longrightarrow> aqs' ! l = aqueous_solutions io ! l))"
  using assms
proof (induction ls arbitrary: io)
  case Nil
  then have "ps' = ps" and "io' = io\<lparr>aqueous_solutions := aqueous_solutions io\<rparr>"
    by simp_all
  then show ?case
    by (intro conjI exI [of _ "aqueous_solutions io"]) simp_all
next
  case (Cons l ls)
  obtain io1 ps1 where
    1: "process_system log10_std pow_std SettingAqueousSolutions (io, ps) l = Inr (io1, ps1)"
    and 2: "for_each (process_system log10_std pow_std SettingAqueousSolutions) ls (io1, ps1) = Inr (io', ps')"
    using Cons.prems(1) by (auto split: sum.splits)
  from process_system_Setting [OF 1 Cons.prems(3,4)]
  obtain aq1 where ps1: "ps1 = ps" and l: "l < length (aqueous_solutions io)"
    and io1: "io1 = io\<lparr>aqueous_solutions := (aqueous_solutions io)[l := aq1]\<rparr>"
    and aq1: "pH aq1 = - log10_std (ps ! nat p ! unat (chemical_system_map io ! l))"
    by blast
  have "ps' = ps \<and>
    (\<exists>aqs'. io' = io1\<lparr>aqueous_solutions := aqs'\<rparr>
       \<and> (\<forall>l \<in> set ls. pH (aqs' ! l) = - log10_std (ps ! nat p ! unat (chemical_system_map io1 ! l)))
       \<and> (\<forall>l. l \<notin> set ls \<longrightarrow> aqs' ! l = aqueous_solutions io1 ! l))"
    using Cons.IH [of io1] 2 Cons.prems(2,3,4) by (simp add: ps1 io1)
  then obtain aqs' where ps': "ps' = ps" and io': "io' = io1\<lparr>aqueous_solutions := aqs'\<rparr>"
    and a: "\<forall>l \<in> set ls. pH (aqs' ! l) = - log10_std (ps ! nat p ! unat (chemical_system_map io1 ! l))"
    and b: "\<forall>l. l \<notin> set ls \<longrightarrow> aqs' ! l = aqueous_solutions io1 ! l"
    by blast
  have "l \<notin> set ls" using Cons.prems(2) by simp
  then have "aqs' ! l = aq1" using b l by (simp add: io1)
  then have "\<forall>k \<in> set (l # ls). pH (aqs' ! k) = - log10_std (ps ! nat p ! unat (chemical_system_map io ! k))"
    using a aq1 by (simp add: io1)
  moreover have "\<forall>k. k \<notin> set (l # ls) \<longrightarrow> aqs' ! k = aqueous_solutions io ! k"
    using b by (simp add: io1)
  moreover have "io' = io\<lparr>aqueous_solutions := aqs'\<rparr>"
    by (simp add: io' io1)
  ultimately show ?case using ps' by blast
qed

lemma process_system_Updating:
  assumes "process_system log10_std pow_std UpdatingProcessSolutions (io, ps) l = Inr (io', ps')"
  shows "io' = io" and "map length ps' = map length ps"
    and "distinct (map fst (process_id_to_component_name_map io)) \<Longrightarrow>
         (p, ''H'') \<in> set (process_id_to_component_name_map io) \<Longrightarrow> 0 \<le> p \<Longrightarrow>
         ps' ! nat p = (ps ! nat p)
           [unat (chemical_system_map io ! l) := pow_std 10 (- pH (aqueous_solutions io ! l))]"
proof -
  obtain aq' where l: "l < length (aqueous_solutions io)"
    and 1: "for_each (process_entry log10_std pow_std UpdatingProcessSolutions (chemical_system_map io ! l))
        (process_id_to_component_name_map io) (aqueous_solutions io ! l, ps) = Inr (aq', ps')"
    and io': "io' = io\<lparr>aqueous_solutions := (aqueous_solutions io)[l := aq']\<rparr>"
    using assms(1)
    by (auto simp: process_system_def Let_def split: if_splits sum.splits prod.splits)
  have aq': "aq' = aqueous_solutions io ! l"
    using entries_Updating [OF 1] by simp
  show "io' = io" by (simp add: io' aq')
  show "map length ps' = map length ps"
    using entries_Updating [OF 1] by simp
  show "ps' ! nat p = (ps ! nat p)
      [unat (chemical_system_map io ! l) := pow_std 10 (- pH (aqueous_solutions io ! l))]"
    if "distinct (map fst (process_id_to_component_name_map io))"
      and "(p, ''H'') \<in> set (process_id_to_component_name_map io)" and "0 \<le> p"
    using entries_Updating_H [OF 1 that] .
qed

lemma systems_Updating:
  assumes "for_each (process_system log10_std pow_std UpdatingProcessSolutions) ls (io, ps) = Inr (io', ps')"
    and "distinct (map fst (process_id_to_component_name_map io))"
    and "(p, ''H'') \<in> set (process_id_to_component_name_map io)" and "0 \<le> p"
  shows "io' = io \<and>
    ps' ! nat p =
      fold (\<lambda>l v. v[unat (chemical_system_map io ! l) := pow_std 10 (- pH (aqueous_solutions io ! l))])
        ls (ps ! nat p)"
  using assms(1)
proof (induction ls arbitrary: ps)
  case Nil
  then show ?case by simp
next
  case (Cons l ls)
  obtain io1 ps1 where
    1: "process_system log10_std pow_std UpdatingProcessSolutions (io, ps) l = Inr (io1, ps1)"
    and 2: "for_each (process_system log10_std pow_std UpdatingProcessSolutions) ls (io1, ps1) = Inr (io', ps')"
    using Cons.prems(1) by (auto split: sum.splits)
  note s = process_system_Updating [OF 1]
  show ?case
    using Cons.IH [of ps1] 2 s(1) s(3) [OF assms(2,3,4)] by simp
qed

lemma fold_update_keep:
  "(\<And>l. l \<in> set ls \<Longrightarrow> f l = i \<Longrightarrow> h l = v ! i) \<Longrightarrow>
   fold (\<lambda>l v. v[f l := h l]) ls v ! i = v ! i"
proof (induction ls arbitrary: v)
  case Nil
  then show ?case by simp
next
  case (Cons l ls)
  have 1: "v[f l := h l] ! i = v ! i"
  proof (cases "f l = i")
    case True
    then have "h l = v ! i" using Cons.prems by simp
    then show ?thesis using True by (metis list_update_id)
  next
    case False
    then show ?thesis by simp
  qed
  have "fold (\<lambda>l v. v[f l := h l]) ls (v[f l := h l]) ! i = v[f l := h l] ! i"
    by (rule Cons.IH) (use Cons.prems 1 in auto)
  then show ?case using 1 by simp
qed

lemma fold_update_same:
  "(\<And>l. l \<in> set ls \<Longrightarrow> f l = i \<Longrightarrow> h l = c) \<Longrightarrow> k \<in> set ls \<Longrightarrow> f k = i \<Longrightarrow> i < length v \<Longrightarrow>
   fold (\<lambda>l v. v[f l := h l]) ls v ! i = c"
proof (induction ls arbitrary: v)
  case Nil
  then show ?case by simp
next
  case (Cons l ls)
  show ?case
  proof (cases "f l = i")
    case True
    then have "h l = c" using Cons.prems by simp
    then have "v[f l := h l] ! i = c" using True Cons.prems(4) by simp
    moreover have "fold (\<lambda>l v. v[f l := h l]) ls (v[f l := h l]) ! i = v[f l := h l] ! i"
      by (rule fold_update_keep) (use Cons.prems calculation in auto)
    ultimately show ?thesis by simp
  next
    case False
    then have "k \<in> set ls" using Cons.prems by auto
    then have "fold (\<lambda>l v. v[f l := h l]) ls (v[f l := h l]) ! i = c"
      by (intro Cons.IH) (use Cons.prems in auto)
    then show ?thesis by simp
  qed
qed

lemma process_entry_total:
  assumes "0 \<le> fst e" and "nat (fst e) < length ps" and "unat g < length (ps ! nat (fst e))"
  shows "\<exists>aq' ps'. process_entry log10_std pow_std status g (aq, ps) e = Inr (aq', ps')
    \<and> map length ps' = map length ps"
proof (cases status)
  case SettingAqueousSolutions
  then show ?thesis
    using process_entry_Setting_total [OF assms, where aq = aq and var = "snd e"
        and log10_std = log10_std and pow_std = pow_std] by auto
next
  case UpdatingProcessSolutions
  obtain ps' where 1: "process_entry log10_std pow_std UpdatingProcessSolutions g (aq, ps) (fst e, snd e) = Inr (aq, ps')"
    using process_entry_Updating_total [OF assms] by blast
  show ?thesis
    using 1 process_entry_Updating(4) [OF 1] UpdatingProcessSolutions by auto
qed

lemma same_shape:
  assumes "map length ps' = map length ps"
  shows "length ps' = length ps" and "i < length ps \<Longrightarrow> length (ps' ! i) = length (ps ! i)"
proof -
  show 1: "length ps' = length ps"
    using assms by (metis length_map)
  show "length (ps' ! i) = length (ps ! i)" if "i < length ps"
    using assms 1 that by (metis nth_map)
qed

lemma entries_total:
  assumes "list_all (\<lambda>e. 0 \<le> fst e \<and> nat (fst e) < length ps
      \<and> unat g < length (ps ! nat (fst e))) es"
  shows "\<exists>st'. for_each (process_entry log10_std pow_std status g) es (aq, ps) = Inr st'
    \<and> map length (snd st') = map length ps"
proof (rule for_each_total)
  show "map length (snd (aq, ps)) = map length ps" by simp
next
  fix st :: "AqueousSolution \<times> real list list" and e
  assume e: "e \<in> set es" and I: "map length (snd st) = map length ps"
  obtain aq1 ps1 where st: "st = (aq1, ps1)" by (cases st)
  have r: "0 \<le> fst e" "nat (fst e) < length ps" "unat g < length (ps ! nat (fst e))"
    using assms e by (auto simp: list_all_iff)
  have "nat (fst e) < length ps1" "unat g < length (ps1 ! nat (fst e))"
    using same_shape(1) [of ps1 ps] same_shape(2) [of ps1 ps "nat (fst e)"] I r
    by (simp_all add: st)
  from process_entry_total [OF r(1) this, where status = status and aq = aq1
      and log10_std = log10_std and pow_std = pow_std]
  show "\<exists>s'. process_entry log10_std pow_std status g st e = Inr s' \<and> map length (snd s') = map length ps"
    using I by (auto simp: st)
qed

lemma process_system_total:
  assumes "solutions_in_range io0 ps0" and "l < unat (num_chemical_systems io0)"
    and "io = io0\<lparr>aqueous_solutions := aqs\<rparr>" and "length aqs = length (aqueous_solutions io0)"
    and "map length ps = map length ps0"
  shows "\<exists>aqs' ps'. process_system log10_std pow_std status (io, ps) l = Inr (io0\<lparr>aqueous_solutions := aqs'\<rparr>, ps')
    \<and> length aqs' = length (aqueous_solutions io0) \<and> map length ps' = map length ps0"
proof -
  have l: "l < length (chemical_system_map io)" "l < length (aqueous_solutions io)"
    using assms(1,2,3,4) by (auto simp: solutions_in_range_def systems_in_range_def)
  have "list_all (\<lambda>e. 0 \<le> fst e \<and> nat (fst e) < length ps
      \<and> unat (chemical_system_map io ! l) < length (ps ! nat (fst e)))
      (process_id_to_component_name_map io)"
    using assms(1,2) same_shape [OF assms(5)]
    by (auto simp: solutions_in_range_def list_all_iff assms(3))
  from entries_total [OF this, where status = status and aq = "aqueous_solutions io ! l"
      and log10_std = log10_std and pow_std = pow_std]
  obtain aq' ps' where 1: "for_each (process_entry log10_std pow_std status (chemical_system_map io ! l))
      (process_id_to_component_name_map io) (aqueous_solutions io ! l, ps) = Inr (aq', ps')"
    and 2: "map length ps' = map length ps"
    by auto
  have "process_system log10_std pow_std status (io, ps) l = Inr (io0\<lparr>aqueous_solutions := aqs[l := aq']\<rparr>, ps')"
    using l 1 by (simp add: process_system_def assms(3))
  then show ?thesis
    using 2 assms(4,5) by (intro exI [of _ "aqs[l := aq']"] exI [of _ ps']) simp
qed

lemma phase_total:
  assumes "solutions_in_range io ps"
  shows "\<exists>aqs' ps'. setAqueousSolutionsOrUpdateProcessSolutions log10_std pow_std status (io, ps)
      = Inr (io\<lparr>aqueous_solutions := aqs'\<rparr>, ps')
    \<and> length aqs' = length (aqueous_solutions io) \<and> map length ps' = map length ps"
proof -
  let ?I = "\<lambda>st :: PhreeqcIO \<times> real list list. (\<exists>aqs'. fst st = io\<lparr>aqueous_solutions := aqs'\<rparr>
      \<and> length aqs' = length (aqueous_solutions io)) \<and> map length (snd st) = map length ps"
  have "\<exists>st'. for_each (process_system log10_std pow_std status) [0..<unat (num_chemical_systems io)] (io, ps) = Inr st'
      \<and> ?I st'"
  proof (rule for_each_total [where I = ?I])
    show "?I (io, ps)"
      by (auto intro: exI [of _ "aqueous_solutions io"])
  next
    fix st l
    assume l: "l \<in> set [0..<unat (num_chemical_systems io)]" and I: "?I st"
    obtain io1 ps1 where st: "st = (io1, ps1)" by (cases st)
    obtain aqs where io1: "io1 = io\<lparr>aqueous_solutions := aqs\<rparr>"
      and aqs: "length aqs = length (aqueous_solutions io)"
      and ps1: "map length ps1 = map length ps"
      using I by (auto simp: st)
    have "l < unat (num_chemical_systems io)" using l by simp
    from process_system_total [OF assms this io1 aqs ps1, where status = status
        and log10_std = log10_std and pow_std = pow_std]
    show "\<exists>s'. process_system log10_std pow_std status st l = Inr s' \<and> ?I s'"
      by (auto simp: st)
  qed
  then show ?thesis
    by (auto simp: setAqueousSolutionsOrUpdateProcessSolutions_def)
qed

lemma solutions_in_range_shape:
  assumes "solutions_in_range io ps" and "map length ps' = map length ps"
  shows "solutions_in_range (io\<lparr>aqueous_solutions := aqs'\<rparr>) ps'
    = (length (aqueous_solutions io) \<le> length aqs' \<or> unat (num_chemical_systems io) \<le> length aqs')"
  using assms same_shape [OF assms(2)]
  by (auto simp: solutions_in_range_def systems_in_range_def list_all_iff)

lemma round_trip_tolerance:
  fixes c L r \<delta> \<epsilon> :: real
  assumes "0 < c" and "\<bar>L - log 10 c\<bar> \<le> \<delta>"
    and "\<bar>r - 10 powr L\<bar> \<le> \<epsilon> * 10 powr L" and "\<epsilon> \<le> 1"
  shows "c * (10 powr (- \<delta>) * (1 - \<epsilon>)) \<le> r" and "r \<le> c * (10 powr \<delta> * (1 + \<epsilon>))"
proof -
  define a :: real where "a = 10 powr (L - log 10 c)"
  have L: "10 powr L = c * a"
  proof -
    have "10 powr L = 10 powr (log 10 c + (L - log 10 c))" by simp
    also have "\<dots> = 10 powr (log 10 c) * a"
      unfolding a_def by (rule powr_add)
    finally show ?thesis using assms(1) by simp
  qed
  have a: "10 powr (- \<delta>) \<le> a" "a \<le> 10 powr \<delta>"
    using assms(2) unfolding a_def by (auto intro!: powr_mono)
  have ca: "0 < c * a"
    using assms(1) by (simp add: a_def)
  have eps: "0 \<le> \<epsilon>"
  proof (rule ccontr)
    assume "\<not> 0 \<le> \<epsilon>"
    then have "\<epsilon> * (c * a) < 0"
      using ca by (simp add: mult_neg_pos)
    then show False
      using assms(3) by (simp add: L)
  qed
  have lo: "c * a * (1 - \<epsilon>) \<le> r" and hi: "r \<le> c * a * (1 + \<epsilon>)"
    using assms(3) by (simp_all add: L abs_le_iff algebra_simps)
  have "c * (10 powr (- \<delta>) * (1 - \<epsilon>)) \<le> c * (a * (1 - \<epsilon>))"
    using a(1) assms(1,4) by (intro mult_left_mono mult_right_mono) simp_all
  then show "c * (10 powr (- \<delta>) * (1 - \<epsilon>)) \<le> r"
    using lo by (simp add: mult.assoc)
  have "c * (a * (1 + \<epsilon>)) \<le> c * (10 powr \<delta> * (1 + \<epsilon>))"
    using a(2) assms(1) eps by (intro mult_left_mono mult_right_mono) simp_all
  then show "r \<le> c * (10 powr \<delta> * (1 + \<epsilon>))"
    using hi by (simp add: mult.assoc)
qed

text \<open>
  Claim C4. The transport process \<open>p\<close> is bound to \<^verbatim>\<open>H\<close>, process ids and names in the map
  are distinct, all indices are in range, and the entry \<open>c\<close> of the vector of \<open>p\<close> at the
  global id of a chemical system is positive. Then setting the aqueous solutions returns,
  leaves the process solutions as they are and stores \<open>pH = - log10_std c\<close> for that
  system; updating the process solutions right after returns and writes
  \<open>pow_std 10 (- pH)\<close> to that entry. The tolerance is stated: when \<^verbatim>\<open>std::log10\<close> is within
  \<open>\<delta>\<close> of the logarithm at \<open>c\<close> and \<^verbatim>\<open>std::pow\<close> within the relative error \<open>\<epsilon>\<close> of the power
  at the stored value, the entry is between \<open>c * 10 powr (- \<delta>) * (1 - \<epsilon>)\<close> and
  \<open>c * 10 powr \<delta> * (1 + \<epsilon>)\<close>; for exact functions it is \<open>c\<close>.
\<close>

theorem pH_round_trip:
  assumes "solutions_in_range io ps"
    and "distinct (map fst (process_id_to_component_name_map io))"
    and "distinct (map snd (process_id_to_component_name_map io))"
    and "(p, ''H'') \<in> set (process_id_to_component_name_map io)"
    and "local_id < unat (num_chemical_systems io)"
    and "g = chemical_system_map io ! local_id"
    and "c = ps ! nat p ! unat g" and "0 < c"
    and "\<bar>log10_std c - log 10 c\<bar> \<le> \<delta>"
    and "\<bar>pow_std 10 (log10_std c) - 10 powr (log10_std c)\<bar> \<le> \<epsilon> * 10 powr (log10_std c)"
    and "\<epsilon> \<le> 1"
  shows "\<exists>aqs1 ps2.
    setAqueousSolutionsOrUpdateProcessSolutions log10_std pow_std SettingAqueousSolutions
        (io, ps) = Inr (io\<lparr>aqueous_solutions := aqs1\<rparr>, ps)
    \<and> pH (aqs1 ! local_id) = - log10_std c
    \<and> setAqueousSolutionsOrUpdateProcessSolutions log10_std pow_std UpdatingProcessSolutions
        (io\<lparr>aqueous_solutions := aqs1\<rparr>, ps) = Inr (io\<lparr>aqueous_solutions := aqs1\<rparr>, ps2)
    \<and> ps2 ! nat p ! unat g = pow_std 10 (- pH (aqs1 ! local_id))
    \<and> c * (10 powr (- \<delta>) * (1 - \<epsilon>)) \<le> ps2 ! nat p ! unat g
    \<and> ps2 ! nat p ! unat g \<le> c * (10 powr \<delta> * (1 + \<epsilon>))"
proof -
  let ?N = "unat (num_chemical_systems io)"
  let ?g = "\<lambda>l. unat (chemical_system_map io ! l)"
  have r: "0 \<le> p" "unat g < length (ps ! nat p)"
    using assms(1,4,5) by (auto simp: solutions_in_range_def list_all_iff assms(6))
  obtain aqs1 ps1 where
    1: "setAqueousSolutionsOrUpdateProcessSolutions log10_std pow_std SettingAqueousSolutions
          (io, ps) = Inr (io\<lparr>aqueous_solutions := aqs1\<rparr>, ps1)"
    and len1: "length aqs1 = length (aqueous_solutions io)"
    using phase_total [OF assms(1)] by blast
  let ?io1 = "io\<lparr>aqueous_solutions := aqs1\<rparr>"
  have s1: "for_each (process_system log10_std pow_std SettingAqueousSolutions) [0..<?N] (io, ps)
      = Inr (?io1, ps1)"
    using 1 by (simp add: setAqueousSolutionsOrUpdateProcessSolutions_def)
  from systems_Setting [OF s1 _ assms(3,4)]
  obtain aqs' where ps1: "ps1 = ps" and eq: "?io1 = io\<lparr>aqueous_solutions := aqs'\<rparr>"
    and pH': "\<forall>l \<in> set [0..<?N]. pH (aqs' ! l) = - log10_std (ps ! nat p ! ?g l)"
    by auto
  have "aqueous_solutions ?io1 = aqueous_solutions (io\<lparr>aqueous_solutions := aqs'\<rparr>)"
    using eq by simp
  then have "aqs' = aqs1" by simp
  then have pH1: "pH (aqs1 ! l) = - log10_std (ps ! nat p ! ?g l)" if "l < ?N" for l
    using pH' that by simp
  have stored: "pH (aqs1 ! local_id) = - log10_std c"
    using pH1 [OF assms(5)] by (simp add: assms(6,7))
  have r1: "solutions_in_range ?io1 ps"
    using solutions_in_range_shape [OF assms(1) refl, of aqs1] len1 by simp
  obtain aqs2 ps2 where
    2: "setAqueousSolutionsOrUpdateProcessSolutions log10_std pow_std UpdatingProcessSolutions
          (?io1, ps) = Inr (?io1\<lparr>aqueous_solutions := aqs2\<rparr>, ps2)"
    using phase_total [OF r1] by blast
  have u1: "for_each (process_system log10_std pow_std UpdatingProcessSolutions) [0..<?N] (?io1, ps)
      = Inr (?io1\<lparr>aqueous_solutions := aqs2\<rparr>, ps2)"
    using 2 by (simp add: setAqueousSolutionsOrUpdateProcessSolutions_def)
  have u: "?io1\<lparr>aqueous_solutions := aqs2\<rparr> = ?io1"
    and "ps2 ! nat p =
      fold (\<lambda>l v. v[?g l := pow_std 10 (- pH (aqs1 ! l))]) [0..<?N] (ps ! nat p)"
    using systems_Updating [OF u1 _ _ r(1)] assms(2,4) by simp_all
  moreover have "fold (\<lambda>l v. v[?g l := pow_std 10 (- pH (aqs1 ! l))]) [0..<?N] (ps ! nat p)
      ! unat g = pow_std 10 (- pH (aqs1 ! local_id))"
  proof (rule fold_update_same [where k = local_id])
    fix l assume l: "l \<in> set [0..<?N]" and g: "?g l = unat g"
    have "pH (aqs1 ! l) = - log10_std c"
      using pH1 [of l] l g by (simp add: assms(7))
    then show "pow_std 10 (- pH (aqs1 ! l)) = pow_std 10 (- pH (aqs1 ! local_id))"
      by (simp add: stored)
  qed (use assms(5) r(2) in \<open>simp_all add: assms(6)\<close>)
  ultimately have written: "ps2 ! nat p ! unat g = pow_std 10 (- pH (aqs1 ! local_id))"
    by simp
  then have final: "ps2 ! nat p ! unat g = pow_std 10 (log10_std c)"
    by (simp add: stored)
  note tol = round_trip_tolerance [OF assms(8,9) assms(10) [folded final] assms(11)]
  have "setAqueousSolutionsOrUpdateProcessSolutions log10_std pow_std UpdatingProcessSolutions
      (?io1, ps) = Inr (?io1, ps2)"
    using 2 u by simp
  then show ?thesis
    using 1 ps1 stored written tol by blast
qed

text \<open>
  Claim C10. In the updating phase, for the transport variable \<^verbatim>\<open>H\<close> of process \<open>p\<close> and a
  solution with a component named \<^verbatim>\<open>H\<close>: the first \<^verbatim>\<open>if\<close> writes the amount of the component
  at the global id, the second \<^verbatim>\<open>if\<close> runs on that state and writes \<open>pow_std 10 (- pH)\<close> over
  it; after the phase the entry is \<open>pow_std 10 (- pH)\<close>, when no other system has the same
  global id.
\<close>

theorem hydrogen_written_last:
  assumes "solutions_in_range io ps"
    and "distinct (map fst (process_id_to_component_name_map io))"
    and "(p, ''H'') \<in> set (process_id_to_component_name_map io)"
    and "local_id < unat (num_chemical_systems io)"
    and "list_all (\<lambda>l. chemical_system_map io ! l = chemical_system_map io ! local_id \<longrightarrow> l = local_id)
           [0..<unat (num_chemical_systems io)]"
    and "find_if (\<lambda>c. comp_name c = ''H'') (components (aqueous_solutions io ! local_id)) = Some k"
    and "aq = aqueous_solutions io ! local_id"
    and "g = chemical_system_map io ! local_id"
  shows "(\<forall>ps1. map length ps1 = map length ps \<longrightarrow>
            set_or_update_component UpdatingProcessSolutions g p ''H'' (aq, ps1)
              = Inr (aq, ps1[nat p := (ps1 ! nat p)[unat g := comp_amount (components aq ! k)]])
          \<and> process_entry log10_std pow_std UpdatingProcessSolutions g (aq, ps1) (p, ''H'')
              = set_or_update_hydrogen log10_std pow_std UpdatingProcessSolutions g p ''H''
                  (aq, ps1[nat p := (ps1 ! nat p)[unat g := comp_amount (components aq ! k)]])
          \<and> process_entry log10_std pow_std UpdatingProcessSolutions g (aq, ps1) (p, ''H'')
              = Inr (aq, ps1[nat p := (ps1 ! nat p)[unat g := pow_std 10 (- pH aq)]]))
     \<and> (\<exists>ps'. setAqueousSolutionsOrUpdateProcessSolutions log10_std pow_std UpdatingProcessSolutions (io, ps)
              = Inr (io, ps')
          \<and> ps' ! nat p ! unat g = pow_std 10 (- pH aq))"
proof (intro conjI allI impI)
  let ?N = "unat (num_chemical_systems io)"
  have r: "0 \<le> p" "nat p < length ps" "unat g < length (ps ! nat p)"
    using assms(1,3,4) by (auto simp: solutions_in_range_def list_all_iff assms(8))
  {
    fix ps1 :: "real list list"
    assume shape: "map length ps1 = map length ps"
    have r1: "nat p < length ps1" "unat g < length (ps1 ! nat p)"
      using same_shape(1) [OF shape] same_shape(2) [OF shape, of "nat p"] r by simp_all
    show c: "set_or_update_component UpdatingProcessSolutions g p ''H'' (aq, ps1)
        = Inr (aq, ps1[nat p := (ps1 ! nat p)[unat g := comp_amount (components aq ! k)]])"
      using assms(6) r1 by (simp add: set_or_update_component_def vector_set_def assms(7))
    show "process_entry log10_std pow_std UpdatingProcessSolutions g (aq, ps1) (p, ''H'')
        = set_or_update_hydrogen log10_std pow_std UpdatingProcessSolutions g p ''H''
            (aq, ps1[nat p := (ps1 ! nat p)[unat g := comp_amount (components aq ! k)]])"
    proof -
      have "\<not> p < 0" "\<not> int (length ps1) \<le> p"
        using r(1) r1(1) by linarith+
      then show ?thesis
        using c by (simp add: process_entry_def Let_def)
    qed
    then show "process_entry log10_std pow_std UpdatingProcessSolutions g (aq, ps1) (p, ''H'')
        = Inr (aq, ps1[nat p := (ps1 ! nat p)[unat g := pow_std 10 (- pH aq)]])"
      using r1 by (simp add: set_or_update_hydrogen_def vector_set_def)
  }
  obtain aqs' ps' where
    1: "setAqueousSolutionsOrUpdateProcessSolutions log10_std pow_std UpdatingProcessSolutions (io, ps)
        = Inr (io\<lparr>aqueous_solutions := aqs'\<rparr>, ps')"
    using phase_total [OF assms(1)] by blast
  have u1: "for_each (process_system log10_std pow_std UpdatingProcessSolutions) [0..<?N] (io, ps)
      = Inr (io\<lparr>aqueous_solutions := aqs'\<rparr>, ps')"
    using 1 by (simp add: setAqueousSolutionsOrUpdateProcessSolutions_def)
  note u = systems_Updating [OF u1 assms(2,3) r(1)]
  have "fold (\<lambda>l v. v[unat (chemical_system_map io ! l)
            := pow_std 10 (- pH (aqueous_solutions io ! l))]) [0..<?N] (ps ! nat p) ! unat g
      = pow_std 10 (- pH aq)"
  proof (rule fold_update_same [where k = local_id])
    fix l assume "l \<in> set [0..<?N]" and "unat (chemical_system_map io ! l) = unat g"
    then have "l = local_id"
      using assms(5) by (auto simp: list_all_iff assms(8) word_unat_eq_iff)
    then show "pow_std 10 (- pH (aqueous_solutions io ! l)) = pow_std 10 (- pH aq)"
      by (simp add: assms(7))
  qed (use assms(4) r(3) in \<open>simp_all add: assms(8)\<close>)
  then have "ps' ! nat p ! unat g = pow_std 10 (- pH aq)"
    using u by simp
  then show "\<exists>ps'. setAqueousSolutionsOrUpdateProcessSolutions log10_std pow_std UpdatingProcessSolutions (io, ps)
        = Inr (io, ps')
      \<and> ps' ! nat p ! unat g = pow_std 10 (- pH aq)"
    using 1 u by auto
qed

lemma solutions_in_range_two_systems: "solutions_in_range two_systems [[10, 100]]"
  by (simp add: solutions_in_range_def systems_in_range_def two_systems_def upt_rec)

theorem pH_round_trip_witness:
  "solutions_in_range two_systems [[10, 100]]
   \<and> (\<exists>aqs1 ps2.
        setAqueousSolutionsOrUpdateProcessSolutions
          (\<lambda>x. log 10 x + 1 / 1000) (\<lambda>b y. b powr y * (1 + 1 / 1000)) SettingAqueousSolutions
          (two_systems, [[10, 100]]) = Inr (two_systems\<lparr>aqueous_solutions := aqs1\<rparr>, [[10, 100]])
        \<and> pH (aqs1 ! 0) = - (log 10 100 + 1 / 1000)
        \<and> setAqueousSolutionsOrUpdateProcessSolutions
          (\<lambda>x. log 10 x + 1 / 1000) (\<lambda>b y. b powr y * (1 + 1 / 1000)) UpdatingProcessSolutions
          (two_systems\<lparr>aqueous_solutions := aqs1\<rparr>, [[10, 100]])
            = Inr (two_systems\<lparr>aqueous_solutions := aqs1\<rparr>, ps2)
        \<and> ps2 ! 0 ! 1 = 10 powr (- pH (aqs1 ! 0)) * (1 + 1 / 1000)
        \<and> 100 * (10 powr (- (1 / 1000)) * (1 - 1 / 1000)) \<le> ps2 ! 0 ! 1
        \<and> ps2 ! 0 ! 1 \<le> 100 * (10 powr (1 / 1000) * (1 + 1 / 1000)))"
proof -
  have "(0, ''H'') \<in> set (process_id_to_component_name_map two_systems)"
    and "distinct (map fst (process_id_to_component_name_map two_systems))"
    and "distinct (map snd (process_id_to_component_name_map two_systems))"
    and "0 < unat (num_chemical_systems two_systems)"
    and "(1 :: 64 word) = chemical_system_map two_systems ! 0"
    and "(100 :: real) = [[10, 100]] ! nat 0 ! unat (1 :: 64 word)"
    and "(0 :: real) < 100"
    and "\<bar>(log 10 100 + 1 / 1000) - log 10 (100 :: real)\<bar> \<le> 1 / 1000"
    and "\<bar>10 powr (log 10 100 + 1 / 1000) * (1 + 1 / 1000) - 10 powr (log 10 100 + 1 / 1000)\<bar>
          \<le> 1 / 1000 * 10 powr (log 10 (100 :: real) + 1 / 1000)"
    and "(1 / 1000 :: real) \<le> 1"
    by (simp_all add: two_systems_def algebra_simps)
  from pH_round_trip [where log10_std = "\<lambda>x. log 10 x + 1 / 1000"
      and pow_std = "\<lambda>b y. b powr y * (1 + 1 / 1000)",
      OF solutions_in_range_two_systems this(2,3,1,4,5,6,7,8,9,10)]
  show ?thesis
    using solutions_in_range_two_systems by simp
qed

theorem hydrogen_written_last_witness:
  "solutions_in_range two_systems [[10, 100]]
   \<and> process_entry (\<lambda>x. log 10 x) (\<lambda>b y. b powr y) UpdatingProcessSolutions 1
        (\<lparr>pH = 7, pe = 4, components = [\<lparr>comp_name = ''H'', comp_amount = 1\<rparr>]\<rparr>, [[10, 100]]) (0, ''H'')
      = Inr (\<lparr>pH = 7, pe = 4, components = [\<lparr>comp_name = ''H'', comp_amount = 1\<rparr>]\<rparr>,
             [[10, 10 powr (- 7)]])
   \<and> (\<exists>ps'. setAqueousSolutionsOrUpdateProcessSolutions (\<lambda>x. log 10 x) (\<lambda>b y. b powr y)
          UpdatingProcessSolutions (two_systems, [[10, 100]]) = Inr (two_systems, ps')
        \<and> ps' ! 0 ! 1 = 10 powr (- 7))"
proof -
  have "(0, ''H'') \<in> set (process_id_to_component_name_map two_systems)"
    and "distinct (map fst (process_id_to_component_name_map two_systems))"
    and "0 < unat (num_chemical_systems two_systems)"
    and "list_all (\<lambda>l. chemical_system_map two_systems ! l = chemical_system_map two_systems ! 0 \<longrightarrow> l = 0)
           [0..<unat (num_chemical_systems two_systems)]"
    and "find_if (\<lambda>c. comp_name c = ''H'') (components (aqueous_solutions two_systems ! 0)) = Some 0"
    by (simp_all add: two_systems_def upt_rec)
  note t = hydrogen_written_last [where log10_std = "\<lambda>x. log 10 x" and pow_std = "\<lambda>b y. b powr y",
      OF solutions_in_range_two_systems this(2,1,3,4,5) refl refl]
  have e: "process_entry (\<lambda>x. log 10 x) (\<lambda>b y. b powr y) UpdatingProcessSolutions 1
        (\<lparr>pH = 7, pe = 4, components = [\<lparr>comp_name = ''H'', comp_amount = 1\<rparr>]\<rparr>, [[10, 100]]) (0, ''H'')
      = Inr (\<lparr>pH = 7, pe = 4, components = [\<lparr>comp_name = ''H'', comp_amount = 1\<rparr>]\<rparr>,
             [[10, 10 powr (- 7)]])"
    using t [THEN conjunct1, rule_format, THEN conjunct2, THEN conjunct2, of "[[10, 100]]"]
    by (simp add: two_systems_def)
  have ph: "\<exists>ps'. setAqueousSolutionsOrUpdateProcessSolutions (\<lambda>x. log 10 x) (\<lambda>b y. b powr y)
          UpdatingProcessSolutions (two_systems, [[10, 100]]) = Inr (two_systems, ps')
        \<and> ps' ! 0 ! 1 = 10 powr (- 7)"
    using t [THEN conjunct2] by (simp add: two_systems_def)
  show ?thesis
    using e ph solutions_in_range_two_systems by blast
qed

subsection \<open>Properties of the deserializer\<close>

lemma first_line:
  assumes "no_newline l"
  shows "takeWhile (\<lambda>c. c \<noteq> newline) (l @ newline # rest) = l"
    and "dropWhile (\<lambda>c. c \<noteq> newline) (l @ newline # rest) = newline # rest"
proof -
  have "\<And>c. c \<in> set l \<Longrightarrow> c \<noteq> newline"
    using assms by (auto simp: no_newline_def)
  then show "takeWhile (\<lambda>c. c \<noteq> newline) (l @ newline # rest) = l"
    and "dropWhile (\<lambda>c. c \<noteq> newline) (l @ newline # rest) = newline # rest"
    by (simp_all add: takeWhile_append2 dropWhile_append2)
qed

lemma ignore_line_result_file:
  "no_newline l \<Longrightarrow> ignore_line (result_file (l # ls)) = result_file ls"
  by (simp add: ignore_line_def result_file_def good_def first_line)

lemma getline_result_file:
  "no_newline l \<Longrightarrow> getline (result_file (l # ls)) = (Some l, result_file ls)"
  by (simp add: getline_def result_file_def good_def first_line)

lemma skip_result_file:
  "list_all no_newline ls \<Longrightarrow> k \<le> length ls \<Longrightarrow>
   (ignore_line ^^ k) (result_file ls) = result_file (drop k ls)"
proof (induction k arbitrary: ls)
  case 0
  then show ?case by simp
next
  case (Suc k)
  then obtain l ls' where ls: "ls = l # ls'" by (cases ls) auto
  have "(ignore_line ^^ Suc k) (result_file ls) = (ignore_line ^^ k) (ignore_line (result_file ls))"
    by (simp add: funpow_swap1)
  also have "\<dots> = (ignore_line ^^ k) (result_file ls')"
    using Suc.prems by (simp add: ls ignore_line_result_file)
  also have "\<dots> = result_file (drop k ls')"
    using Suc.prems by (intro Suc.IH) (simp_all add: ls)
  finally show ?case by (simp add: ls)
qed

lemma for_each_preserves:
  assumes "for_each body xs s = Inr s'" and "P s"
    and "\<And>s x s'. x \<in> set xs \<Longrightarrow> P s \<Longrightarrow> body s x = Inr s' \<Longrightarrow> P s'"
  shows "P s'"
  using assms
proof (induction xs arbitrary: s)
  case Nil
  then show ?case by simp
next
  case (Cons x xs)
  obtain s1 where 1: "body s x = Inr s1" and 2: "for_each body xs s1 = Inr s'"
    using Cons.prems(1) by (auto split: sum.splits)
  have "P s1" by (rule Cons.prems(3) [OF _ Cons.prems(2) 1]) simp
  show ?case
  proof (rule Cons.IH [OF 2 \<open>P s1\<close>])
    fix y t t'
    assume "y \<in> set xs" and "P t" and "body t y = Inr t'"
    then show "P t'"
      using Cons.prems(3) [of y t t'] by simp
  qed
qed

lemma for_each_append:
  "for_each body (xs @ ys) s =
     (case for_each body xs s of Inl e \<Rightarrow> Inl e | Inr s' \<Rightarrow> for_each body ys s')"
  by (induction xs arbitrary: s) (auto split: sum.splits)

lemma same_configuration_refl [simp]: "same_configuration io io"
  by (simp add: same_configuration_def)

lemma same_configuration_trans:
  "same_configuration io io1 \<Longrightarrow> same_configuration io1 io2 \<Longrightarrow> same_configuration io io2"
  by (simp add: same_configuration_def)

lemma route_item_configuration:
  "route_item ndebug l g accepted io j = Inr io' \<Longrightarrow> same_configuration io io'"
  by (auto simp: route_item_def same_configuration_def Let_def
      split: if_splits ItemType.splits sum.splits option.splits)

lemma process_row_configuration:
  assumes "process_row stod ndebug l g io line = Inr io'"
  shows "same_configuration io io'"
proof -
  obtain accepted where
    "for_each (route_item ndebug l g accepted) [0..<length accepted] io = Inr io'"
    using assms by (auto simp: process_row_def Let_def split: sum.splits if_splits)
  then show ?thesis
    by (rule for_each_preserves [where P = "same_configuration io"])
      (auto dest: route_item_configuration intro: same_configuration_trans)
qed

lemma read_system_result_file:
  assumes "list_all no_newline rows" and "num_skipped_lines io < length rows"
  shows "read_system stod ndebug (io, result_file rows) l =
    (case read_row stod ndebug io (l, rows ! num_skipped_lines io) of
       Inl e \<Rightarrow> Inl e
     | Inr io' \<Rightarrow> Inr (io', result_file (drop (Suc (num_skipped_lines io)) rows)))"
proof -
  let ?k = "num_skipped_lines io"
  have skip: "(ignore_line ^^ ?k) (result_file rows) = result_file (drop ?k rows)"
    using assms by (intro skip_result_file) simp_all
  have d: "drop ?k rows = rows ! ?k # drop (Suc ?k) rows"
    using assms(2) by (simp add: Cons_nth_drop_Suc)
  have "no_newline (rows ! ?k)"
    using assms by (simp add: list_all_length)
  then have "getline (result_file (drop ?k rows))
      = (Some (rows ! ?k), result_file (drop (Suc ?k) rows))"
    by (simp add: d getline_result_file)
  then show ?thesis
    by (simp add: read_system_def read_row_def skip Let_def)
qed

lemma num_skipped_lines_configuration:
  "same_configuration io io' \<Longrightarrow> num_skipped_lines io' = num_skipped_lines io"
  by (simp add: same_configuration_def num_skipped_lines_def)

lemma read_row_configuration:
  "read_row stod ndebug io row = Inr io' \<Longrightarrow> same_configuration io io'"
  by (auto simp: read_row_def dest: process_row_configuration split: if_splits)

lemma data_rows_Cons:
  "k < length rows \<Longrightarrow> data_rows k rows = rows ! k # data_rows k (drop (Suc k) rows)"
  by (subst data_rows.simps) (simp add: Cons_nth_drop_Suc [symmetric])

lemma read_systems_result_file:
  assumes "list_all no_newline rows"
    and "length ids * Suc (num_skipped_lines io) \<le> length rows"
  shows "for_each (read_system stod ndebug) ids (io, result_file rows) =
    (case for_each (read_row stod ndebug) (zip ids (data_rows (num_skipped_lines io) rows)) io of
       Inl e \<Rightarrow> Inl e
     | Inr io' \<Rightarrow> Inr (io', result_file (drop (length ids * Suc (num_skipped_lines io)) rows)))"
  using assms
proof (induction ids arbitrary: io rows)
  case Nil
  then show ?case by simp
next
  case (Cons l ids)
  let ?k = "num_skipped_lines io"
  let ?rows = "drop (Suc ?k) rows"
  have k: "?k < length rows"
    using Cons.prems(2) by simp
  note step = read_system_result_file [OF Cons.prems(1) k, of stod ndebug l]
  note rows = data_rows_Cons [OF k]
  show ?case
  proof (cases "read_row stod ndebug io (l, rows ! ?k)")
    case (Inl e)
    then show ?thesis by (simp add: step rows)
  next
    case (Inr io1)
    have k1: "num_skipped_lines io1 = ?k"
      using read_row_configuration [OF Inr] by (rule num_skipped_lines_configuration)
    have "list_all no_newline ?rows"
      using Cons.prems(1) by (auto simp: list_all_iff dest: in_set_dropD)
    moreover have "length ids * Suc (num_skipped_lines io1) \<le> length ?rows"
      using Cons.prems(2) by (simp add: k1)
    ultimately have IH: "for_each (read_system stod ndebug) ids (io1, result_file ?rows) =
      (case for_each (read_row stod ndebug) (zip ids (data_rows ?k ?rows)) io1 of
         Inl e \<Rightarrow> Inl e
       | Inr io' \<Rightarrow> Inr (io', result_file (drop (length ids * Suc ?k) ?rows)))"
      using Cons.IH [of ?rows io1] unfolding k1 by simp
    have eq: "drop (length ids * Suc ?k) ?rows = drop (length (l # ids) * Suc ?k) rows"
    proof -
      have "Suc ?k + length ids * Suc ?k = length (l # ids) * Suc ?k" by simp
      then show ?thesis by (metis drop_drop add.commute)
    qed
    have "for_each (read_system stod ndebug) (l # ids) (io, result_file rows)
        = for_each (read_system stod ndebug) ids (io1, result_file ?rows)"
      by (simp add: step Inr)
    moreover have "for_each (read_row stod ndebug) (zip (l # ids) (data_rows ?k rows)) io
        = for_each (read_row stod ndebug) (zip ids (data_rows ?k ?rows)) io1"
      by (subst rows) (simp add: Inr)
    ultimately show ?thesis
      unfolding IH eq by simp
  qed
qed

lemma data_rows_nth:
  "l * Suc k + k < length rows \<Longrightarrow> data_rows k rows ! l = rows ! (l * Suc k + k)"
proof (induction l arbitrary: rows)
  case 0
  then show ?case by (simp add: data_rows_Cons)
next
  case (Suc l)
  then have k: "k < length rows" by simp
  have "data_rows k rows ! Suc l = data_rows k (drop (Suc k) rows) ! l"
    by (simp add: data_rows_Cons [OF k])
  also have "\<dots> = drop (Suc k) rows ! (l * Suc k + k)"
    using Suc.prems by (intro Suc.IH) simp
  also have "\<dots> = rows ! (Suc l * Suc k + k)"
    using Suc.prems by (simp add: add.commute add.left_commute)
  finally show ?case .
qed

text \<open>
  Claim C7. On a result file of lines, the operator skips the header line and then, for
  each system in the order of \<open>local_id\<close>, skips \<open>num_skipped_lines\<close> lines (1 without
  surface sites, 2 with) and reads the next line as the data row of that system: the
  row of system \<open>local_id\<close> is line \<open>local_id * (k + 1) + k\<close> after the header, and the
  stream is left after \<open>N * (k + 1)\<close> lines.
\<close>

theorem header_skips_and_one_row:
  assumes "no_newline header" and "list_all no_newline rows"
    and "unat (num_chemical_systems io) * Suc (num_skipped_lines io) \<le> length rows"
  shows "deserialize stod ndebug (io, result_file (header # rows)) =
      (case for_each (read_row stod ndebug)
              (zip [0..<unat (num_chemical_systems io)] (data_rows (num_skipped_lines io) rows))
              io of
         Inl e \<Rightarrow> Inl e
       | Inr io' \<Rightarrow>
           Inr (io', result_file
                  (drop (unat (num_chemical_systems io) * Suc (num_skipped_lines io)) rows)))
    \<and> list_all
        (\<lambda>local_id. data_rows (num_skipped_lines io) rows ! local_id
           = rows ! (local_id * Suc (num_skipped_lines io) + num_skipped_lines io))
        [0..<unat (num_chemical_systems io)]
    \<and> num_skipped_lines io = (if surface io = [] then 1 else 2)"
proof (intro conjI)
  show "deserialize stod ndebug (io, result_file (header # rows)) =
      (case for_each (read_row stod ndebug)
              (zip [0..<unat (num_chemical_systems io)] (data_rows (num_skipped_lines io) rows))
              io of
         Inl e \<Rightarrow> Inl e
       | Inr io' \<Rightarrow>
           Inr (io', result_file
                  (drop (unat (num_chemical_systems io) * Suc (num_skipped_lines io)) rows)))"
    using read_systems_result_file [OF assms(2), where ids = "[0..<unat (num_chemical_systems io)]"
        and io = io and stod = stod and ndebug = ndebug] assms(1,3)
    unfolding length_upt diff_zero deserialize_def
    by (simp add: ignore_line_result_file)
  show "list_all
        (\<lambda>local_id. data_rows (num_skipped_lines io) rows ! local_id
           = rows ! (local_id * Suc (num_skipped_lines io) + num_skipped_lines io))
        [0..<unat (num_chemical_systems io)]"
    unfolding list_all_iff
  proof
    fix l assume "l \<in> set [0..<unat (num_chemical_systems io)]"
    then have "Suc l \<le> unat (num_chemical_systems io)" by simp
    then have "Suc l * Suc (num_skipped_lines io)
        \<le> unat (num_chemical_systems io) * Suc (num_skipped_lines io)"
      by (rule mult_le_mono1)
    then have "Suc l * Suc (num_skipped_lines io) \<le> length rows"
      using assms(3) by (rule le_trans)
    then show "data_rows (num_skipped_lines io) rows ! l
        = rows ! (l * Suc (num_skipped_lines io) + num_skipped_lines io)"
      by (intro data_rows_nth) simp
  qed
  show "num_skipped_lines io = (if surface io = [] then 1 else 2)"
    by (simp add: num_skipped_lines_def)
qed

lemma upt_split: "i < n \<Longrightarrow> [0..<n] = [0..<i] @ i # [Suc i..<n]"
proof -
  assume "i < n"
  then have "[0..<n] = [0..<i] @ [i..<n]"
    using upt_add_eq_append [of 0 i "n - i"] by simp
  then show ?thesis
    using \<open>i < n\<close> by (simp add: upt_conv_Cons)
qed

lemma accept_items_first_failure:
  assumes "first_failure stod dropped_ids items i"
  shows "accept_items stod dropped_ids g items
    = Inl (ConversionFailure (projl (stod (items ! i))) (items ! i) g (int i))"
proof -
  have i: "i < length items" "int i \<notin> set dropped_ids" "isl (stod (items ! i))"
    and before: "\<And>j. j < i \<Longrightarrow> int j \<in> set dropped_ids \<or> \<not> isl (stod (items ! j))"
    using assms by (auto simp: first_failure_def list_all_iff)
  have upt: "[0..<length items] = [0..<i] @ i # [Suc i..<length items]"
    using i(1) by (rule upt_split)
  have "\<exists>acc. for_each (accept_item stod dropped_ids g items) [0..<i] [] = Inr acc \<and> True"
  proof (rule for_each_total)
    fix acc :: "real list" and j
    assume "j \<in> set [0..<i]"
    then have "int j \<in> set dropped_ids \<or> \<not> isl (stod (items ! j))"
      using before by simp
    then show "\<exists>acc'. accept_item stod dropped_ids g items acc j = Inr acc' \<and> True"
      by (auto simp: accept_item_def split: sum.splits)
  qed simp
  then obtain acc where 1: "for_each (accept_item stod dropped_ids g items) [0..<i] [] = Inr acc"
    by blast
  have 2: "accept_item stod dropped_ids g items acc i
      = Inl (ConversionFailure (projl (stod (items ! i))) (items ! i) g (int i))"
    using i(2,3) by (auto simp: accept_item_def split: sum.splits)
  show ?thesis
    unfolding accept_items_def by (subst upt) (simp add: for_each_append 1 2)
qed

lemma read_row_first_failure:
  assumes "first_failure stod (dropped_item_ids (output' io)) (tokens line) i"
    and "l < length (chemical_system_map io)"
  shows "read_row stod ndebug io (l, line)
    = Inl (ConversionFailure (projl (stod (tokens line ! i))) (tokens line ! i)
        (chemical_system_map io ! l) (int i))"
  using assms(2) accept_items_first_failure [OF assms(1)]
  by (simp add: read_row_def process_row_def)

lemma read_rows_configuration:
  assumes "for_each (read_row stod ndebug) xs io = Inr io'"
  shows "same_configuration io io'"
  using assms
  by (rule for_each_preserves [where P = "same_configuration io"])
    (auto dest: read_row_configuration intro: same_configuration_trans)

text \<open>
  Claim C8. When the data row of a system has a column that is not dropped and that
  \<open>stod\<close> does not convert, the operator fails; when the systems before it were read, the
  error is the conversion failure of the first such column, with the token, the global
  id of the system and the column index.
\<close>

theorem conversion_failure_is_fatal:
  assumes "no_newline header" and "list_all no_newline rows"
    and "unat (num_chemical_systems io) * Suc (num_skipped_lines io) \<le> length rows"
    and "unat (num_chemical_systems io) \<le> length (chemical_system_map io)"
    and "local_id < unat (num_chemical_systems io)"
    and "items = tokens (rows ! (local_id * Suc (num_skipped_lines io) + num_skipped_lines io))"
    and "first_failure stod (dropped_item_ids (output' io)) items item_id"
  shows "\<exists>e. deserialize stod ndebug (io, result_file (header # rows)) = Inl e
    \<and> ((\<exists>st. for_each (read_system stod ndebug) [0..<local_id]
              (io, ignore_line (result_file (header # rows))) = Inr st)
         \<longrightarrow> e = ConversionFailure (projl (stod (items ! item_id))) (items ! item_id)
               (chemical_system_map io ! local_id) (int item_id))"
proof -
  let ?N = "unat (num_chemical_systems io)"
  let ?k = "num_skipped_lines io"
  let ?e = "ConversionFailure (projl (stod (items ! item_id))) (items ! item_id)
      (chemical_system_map io ! local_id) (int item_id)"
  have upt: "[0..<?N] = [0..<local_id] @ local_id # [Suc local_id..<?N]"
    using assms(5) by (rule upt_split)
  have hdr: "ignore_line (result_file (header # rows)) = result_file rows"
    using assms(1) by (rule ignore_line_result_file)
  have des: "deserialize stod ndebug (io, result_file (header # rows))
      = (case for_each (read_system stod ndebug) [0..<local_id] (io, result_file rows) of
           Inl e \<Rightarrow> Inl e
         | Inr st \<Rightarrow> for_each (read_system stod ndebug) (local_id # [Suc local_id..<?N]) st)"
    unfolding deserialize_def fst_conv snd_conv
    by (subst upt) (simp add: hdr for_each_append)
  have "Suc local_id * Suc ?k \<le> ?N * Suc ?k"
    using assms(5) by (intro mult_le_mono1) simp
  then have len: "Suc local_id * Suc ?k \<le> length rows"
    using assms(3) by (rule le_trans)
  show ?thesis
  proof (cases "for_each (read_system stod ndebug) [0..<local_id] (io, result_file rows)")
    case (Inl e)
    then show ?thesis by (simp add: des hdr)
  next
    case (Inr st)
    have "for_each (read_system stod ndebug) [0..<local_id] (io, result_file rows) =
      (case for_each (read_row stod ndebug) (zip [0..<local_id] (data_rows ?k rows)) io of
         Inl e \<Rightarrow> Inl e
       | Inr io' \<Rightarrow> Inr (io', result_file (drop (length [0..<local_id] * Suc ?k) rows)))"
      using len by (intro read_systems_result_file [OF assms(2)]) simp
    then obtain io1 where
      1: "for_each (read_row stod ndebug) (zip [0..<local_id] (data_rows ?k rows)) io = Inr io1"
      and st: "st = (io1, result_file (drop (local_id * Suc ?k) rows))"
      using Inr by (auto split: sum.splits)
    note c = read_rows_configuration [OF 1]
    have k1: "num_skipped_lines io1 = ?k"
      using c by (rule num_skipped_lines_configuration)
    let ?rows = "drop (local_id * Suc ?k) rows"
    have "list_all no_newline ?rows"
      using assms(2) by (auto simp: list_all_iff dest: in_set_dropD)
    moreover have "num_skipped_lines io1 < length ?rows"
      using len by (simp add: k1)
    ultimately have "read_system stod ndebug (io1, result_file ?rows) local_id =
      (case read_row stod ndebug io1 (local_id, ?rows ! num_skipped_lines io1) of
         Inl e \<Rightarrow> Inl e
       | Inr io' \<Rightarrow> Inr (io', result_file (drop (Suc (num_skipped_lines io1)) ?rows)))"
      by (rule read_system_result_file)
    moreover have "?rows ! num_skipped_lines io1 = rows ! (local_id * Suc ?k + ?k)"
      using len by (simp add: k1)
    moreover have "read_row stod ndebug io1 (local_id, rows ! (local_id * Suc ?k + ?k)) = Inl ?e"
    proof -
      have "first_failure stod (dropped_item_ids (output' io1))
          (tokens (rows ! (local_id * Suc ?k + ?k))) item_id"
        using assms(6,7) c by (simp add: same_configuration_def)
      moreover have "local_id < length (chemical_system_map io1)"
        using assms(4,5) c by (simp add: same_configuration_def)
      ultimately show ?thesis
        using read_row_first_failure [of stod io1 _ item_id local_id ndebug] assms(6) c
        by (simp add: same_configuration_def)
    qed
    ultimately have "read_system stod ndebug st local_id = Inl ?e"
      by (simp add: st)
    then show ?thesis
      by (simp add: des Inr)
  qed
qed

lemma rows_agree_refl [simp]: "rows_agree dropped_ids line line"
  by (simp add: rows_agree_def list_all_iff)

lemma for_each_cong_body:
  "(\<And>s x. x \<in> set xs \<Longrightarrow> body1 s x = body2 s x) \<Longrightarrow>
   for_each body1 xs s = for_each body2 xs s"
  by (induction xs arbitrary: s) (auto split: sum.splits)

lemma accept_items_agree:
  assumes "length items1 = length items2"
    and "\<And>i. i < length items1 \<Longrightarrow> int i \<in> set dropped_ids \<or> items1 ! i = items2 ! i"
  shows "accept_items stod dropped_ids g items1 = accept_items stod dropped_ids g items2"
  unfolding accept_items_def assms(1) [symmetric]
proof (rule for_each_cong_body)
  fix acc :: "real list" and i
  assume "i \<in> set [0..<length items1]"
  then have "int i \<in> set dropped_ids \<or> items1 ! i = items2 ! i"
    using assms(2) [of i] by simp
  then show "accept_item stod dropped_ids g items1 acc i
      = accept_item stod dropped_ids g items2 acc i"
    by (auto simp: accept_item_def split: sum.splits)
qed

lemma process_row_agree:
  assumes "rows_agree (dropped_item_ids (output' io)) line1 line2"
  shows "process_row stod ndebug l g io line1 = process_row stod ndebug l g io line2"
proof -
  have "accept_items stod (dropped_item_ids (output' io)) g (tokens line1)
      = accept_items stod (dropped_item_ids (output' io)) g (tokens line2)"
    using assms by (intro accept_items_agree) (auto simp: rows_agree_def list_all_iff)
  then show ?thesis
    by (simp add: process_row_def)
qed

lemma tables_agree_ignore_line:
  assumes "tables_agree d ins1 ins2"
  shows "tables_agree d (ignore_line ins1) (ignore_line ins2)"
proof (cases "ins1 = ins2")
  case True
  then show ?thesis by (simp add: tables_agree_def)
next
  case False
  then obtain ls1 ls2 where ls: "ins1 = result_file ls1" "ins2 = result_file ls2"
    "list_all no_newline ls1" "list_all no_newline ls2" "list_all2 (rows_agree d) ls1 ls2"
    using assms by (auto simp: tables_agree_def)
  show ?thesis
  proof (cases ls1)
    case Nil
    then have "ins1 = ins2" using ls by simp
    then show ?thesis using False by simp
  next
    case (Cons l1 ls1')
    then obtain l2 ls2' where ls2: "ls2 = l2 # ls2'"
      and t: "list_all2 (rows_agree d) ls1' ls2'"
      using ls(5) by (auto simp: list_all2_Cons1)
    have "ignore_line ins1 = result_file ls1'" "ignore_line ins2 = result_file ls2'"
      using ls(3,4) by (simp_all add: ls(1,2) Cons ls2 ignore_line_result_file)
    then show ?thesis
      using ls(3,4) t by (auto simp: tables_agree_def Cons ls2)
  qed
qed

lemma tables_agree_skip:
  "tables_agree d ins1 ins2 \<Longrightarrow> tables_agree d ((ignore_line ^^ k) ins1) ((ignore_line ^^ k) ins2)"
  by (induction k) (simp_all add: tables_agree_ignore_line)

lemma tables_agree_getline:
  assumes "tables_agree d ins1 ins2"
  shows "(fst (getline ins1) = None \<and> fst (getline ins2) = None)
    \<or> (\<exists>l1 l2. fst (getline ins1) = Some l1 \<and> fst (getline ins2) = Some l2
          \<and> rows_agree d l1 l2
          \<and> tables_agree d (snd (getline ins1)) (snd (getline ins2)))"
proof (cases "ins1 = ins2")
  case True
  then show ?thesis
    by (cases "fst (getline ins2)") (simp_all add: tables_agree_def)
next
  case False
  then obtain ls1 ls2 where ls: "ins1 = result_file ls1" "ins2 = result_file ls2"
    "list_all no_newline ls1" "list_all no_newline ls2" "list_all2 (rows_agree d) ls1 ls2"
    using assms by (auto simp: tables_agree_def)
  show ?thesis
  proof (cases ls1)
    case Nil
    then have "ins1 = ins2" using ls by simp
    then show ?thesis using False by simp
  next
    case (Cons l1 ls1')
    then obtain l2 ls2' where ls2: "ls2 = l2 # ls2'"
      and t: "rows_agree d l1 l2" "list_all2 (rows_agree d) ls1' ls2'"
      using ls(5) by (auto simp: list_all2_Cons1)
    have "getline ins1 = (Some l1, result_file ls1')" "getline ins2 = (Some l2, result_file ls2')"
      using ls(3,4) by (simp_all add: ls(1,2) Cons ls2 getline_result_file)
    then show ?thesis
      using ls(3,4) t by (auto simp: tables_agree_def Cons ls2)
  qed
qed

lemma read_system_agree:
  assumes "states_agree io st1 st2"
  shows "rel_sum (=) (states_agree io)
    (read_system stod ndebug st1 l) (read_system stod ndebug st2 l)"
proof -
  obtain io1 ins1 ins2 where st: "st1 = (io1, ins1)" "st2 = (io1, ins2)"
    and c: "same_configuration io io1"
    and t: "tables_agree (dropped_item_ids (output' io)) ins1 ins2"
    using assms by (cases st1; cases st2) (auto simp: states_agree_def)
  let ?d = "dropped_item_ids (output' io)"
  let ?s1 = "(ignore_line ^^ num_skipped_lines io1) ins1"
  let ?s2 = "(ignore_line ^^ num_skipped_lines io1) ins2"
  have d: "dropped_item_ids (output' io1) = ?d"
    using c by (simp add: same_configuration_def)
  show ?thesis
  proof (cases "length (chemical_system_map io1) \<le> l")
    case True
    then show ?thesis by (simp add: st read_system_def)
  next
    case False
    obtain o1 s1 where g1: "getline ?s1 = (o1, s1)" by (cases "getline ?s1")
    obtain o2 s2 where g2: "getline ?s2 = (o2, s2)" by (cases "getline ?s2")
    have g: "(o1 = None \<and> o2 = None)
        \<or> (\<exists>l1 l2. o1 = Some l1 \<and> o2 = Some l2 \<and> rows_agree ?d l1 l2 \<and> tables_agree ?d s1 s2)"
      using tables_agree_getline [OF tables_agree_skip [OF t, of "num_skipped_lines io1"]]
      by (simp add: g1 g2)
    show ?thesis
    proof (cases o1)
      case None
      then have "o2 = None" using g by auto
      then show ?thesis
        using None False by (simp add: st read_system_def Let_def g1 g2)
    next
      case (Some l1)
      then obtain l2 where l2: "o2 = Some l2"
        and r: "rows_agree ?d l1 l2"
        and t': "tables_agree ?d s1 s2"
        using g by auto
      have p: "process_row stod ndebug l (chemical_system_map io1 ! l) io1 l1
          = process_row stod ndebug l (chemical_system_map io1 ! l) io1 l2"
        using r by (intro process_row_agree) (simp add: d)
      show ?thesis
      proof (cases "process_row stod ndebug l (chemical_system_map io1 ! l) io1 l2")
        case (Inl e)
        then show ?thesis
          using Some l2 p False by (simp add: st read_system_def Let_def g1 g2)
      next
        case (Inr io2)
        have "same_configuration io io2"
          using c process_row_configuration [OF Inr] by (rule same_configuration_trans)
        then show ?thesis
          using Some l2 p False Inr t'
          by (simp add: st read_system_def Let_def states_agree_def g1 g2)
      qed
    qed
  qed
qed

lemma for_each_rel:
  assumes "R s1 s2"
    and "\<And>s1 s2 x. R s1 s2 \<Longrightarrow> rel_sum (=) R (body s1 x) (body s2 x)"
  shows "rel_sum (=) R (for_each body xs s1) (for_each body xs s2)"
  using assms(1)
proof (induction xs arbitrary: s1 s2)
  case Nil
  then show ?case by simp
next
  case (Cons x xs)
  from assms(2) [OF Cons.prems, of x] show ?case
    by (cases "body s1 x"; cases "body s2 x") (auto intro: Cons.IH)
qed

text \<open>
  Claim C6. Two result tables with the same number of lines, whose lines have the same
  number of columns and the same tokens in every column that is not dropped, give the
  same entities, or the same error.
\<close>

theorem dropped_columns_do_not_matter:
  assumes "list_all no_newline table1" and "list_all no_newline table2"
    and "list_all2 (rows_agree (dropped_item_ids (output' io))) table1 table2"
  shows "map_sum id fst (deserialize stod ndebug (io, result_file table1))
    = map_sum id fst (deserialize stod ndebug (io, result_file table2))"
proof -
  have "states_agree io (io, result_file table1) (io, result_file table2)"
    using assms by (auto simp: states_agree_def tables_agree_def)
  then have "states_agree io (io, ignore_line (result_file table1))
      (io, ignore_line (result_file table2))"
    by (simp add: states_agree_def tables_agree_ignore_line)
  then have "rel_sum (=) (states_agree io)
      (deserialize stod ndebug (io, result_file table1))
      (deserialize stod ndebug (io, result_file table2))"
    unfolding deserialize_def fst_conv snd_conv
    by (rule for_each_rel) (rule read_system_agree)
  then show ?thesis
    by (cases "deserialize stod ndebug (io, result_file table1)";
        cases "deserialize stod ndebug (io, result_file table2)")
      (auto simp: states_agree_def)
qed

lemma find_if_Some:
  "find_if p xs = Some k \<Longrightarrow> k < length xs \<and> p (xs ! k)"
  by (induction xs arbitrary: k) (auto split: if_splits)

lemma find_if_map: "find_if p (map f xs) = find_if (\<lambda>x. p (f x)) xs"
  by (induction xs) auto

lemma findElementOrError_find_if:
  "findElementOrError p msg xs = Inr k \<Longrightarrow> find_if p xs = Some k"
  by (induction xs arbitrary: k) (auto split: if_splits sum.splits)

lemma route_item_other_type:
  assumes "route_item ndebug l g accepted io j = Inr io'"
    and "t \<noteq> item_type (accepted_items (output' io) ! j)"
  shows "array_entities t io' = array_entities t io"
  using assms
  by (auto simp: route_item_def array_entities_def Let_def
      split: if_splits ItemType.splits sum.splits option.splits)

lemma route_item_array_type:
  assumes "route_item ndebug l g accepted io j = Inr io'"
    and "t = item_type (accepted_items (output' io) ! j)" and "is_array_type t"
    and "n = item_name (accepted_items (output' io) ! j)"
  shows "\<exists>k. find_if (\<lambda>e. fst e = n) (array_entities t io) = Some k
    \<and> unat g < length (snd (array_entities t io ! k))
    \<and> array_entities t io'
        = (array_entities t io)[k := (n, (snd (array_entities t io ! k))[unat g := accepted ! j])]"
proof -
  have j: "j < length (accepted_items (output' io))"
    using assms(1) by (auto simp: route_item_def split: if_splits)
  consider "t = ItemType_EquilibriumPhase" | "t = ItemType_KineticReactant"
    | "t = ItemType_SecondaryVariable"
    using assms(3) by (auto simp: is_array_type_def)
  then show ?thesis
  proof cases
    case 1
    then obtain k v where
      f: "findElementOrError (\<lambda>item. ep_name item = n)
            (''Could not find equilibrium phase '' @ quoted n) (equilibrium_phases io) = Inr k"
      and v: "vector_set (ep_amount (equilibrium_phases io ! k)) g (accepted ! j) = Inr v"
      and io': "io' = io\<lparr>equilibrium_phases :=
          list_update (equilibrium_phases io) k ((equilibrium_phases io ! k)\<lparr>ep_amount := v\<rparr>)\<rparr>"
      using assms(1,2,4) j
      by (auto simp: route_item_def Let_def split: sum.splits)
    note k = find_if_Some [OF findElementOrError_find_if [OF f]]
    have "find_if (\<lambda>e. fst e = n) (array_entities t io) = Some k"
      using findElementOrError_find_if [OF f] by (simp add: 1 array_entities_def find_if_map)
    moreover have "unat g < length (snd (array_entities t io ! k))"
      and "v = (ep_amount (equilibrium_phases io ! k))[unat g := accepted ! j]"
      using v k by (auto simp: 1 array_entities_def vector_set_def split: if_splits)
    ultimately show ?thesis
      using k by (auto simp: 1 array_entities_def io' map_update)
  next
    case 2
    then obtain k v where
      f: "findElementOrError (\<lambda>item. kr_name item = n)
            (''Could not find kinetic reactant '' @ quoted n) (kinetic_reactants io) = Inr k"
      and v: "vector_set (kr_amount (kinetic_reactants io ! k)) g (accepted ! j) = Inr v"
      and io': "io' = io\<lparr>kinetic_reactants :=
          list_update (kinetic_reactants io) k ((kinetic_reactants io ! k)\<lparr>kr_amount := v\<rparr>)\<rparr>"
      using assms(1,2,4) j
      by (auto simp: route_item_def Let_def split: sum.splits)
    note k = find_if_Some [OF findElementOrError_find_if [OF f]]
    have "find_if (\<lambda>e. fst e = n) (array_entities t io) = Some k"
      using findElementOrError_find_if [OF f] by (simp add: 2 array_entities_def find_if_map)
    moreover have "unat g < length (snd (array_entities t io ! k))"
      and "v = (kr_amount (kinetic_reactants io ! k))[unat g := accepted ! j]"
      using v k by (auto simp: 2 array_entities_def vector_set_def split: if_splits)
    ultimately show ?thesis
      using k by (auto simp: 2 array_entities_def io' map_update)
  next
    case 3
    then obtain up k v where up: "user_punch io = Some up"
      and f: "findElementOrError (\<lambda>item. sv_name item = n)
            (''Could not find secondary variable '' @ quoted n) (secondary_variables up) = Inr k"
      and v: "vector_set (sv_value (secondary_variables up ! k)) g (accepted ! j) = Inr v"
      and io': "io' = io\<lparr>user_punch := Some (up\<lparr>secondary_variables :=
          list_update (secondary_variables up) k ((secondary_variables up ! k)\<lparr>sv_value := v\<rparr>)\<rparr>)\<rparr>"
      using assms(1,2,4) j
      by (auto simp: route_item_def Let_def split: sum.splits option.splits if_splits)
    note k = find_if_Some [OF findElementOrError_find_if [OF f]]
    have "find_if (\<lambda>e. fst e = n) (array_entities t io) = Some k"
      using findElementOrError_find_if [OF f] by (simp add: 3 array_entities_def find_if_map up)
    moreover have "unat g < length (snd (array_entities t io ! k))"
      and "v = (sv_value (secondary_variables up ! k))[unat g := accepted ! j]"
      using v k by (auto simp: 3 array_entities_def vector_set_def up split: if_splits)
    ultimately show ?thesis
      using k by (auto simp: 3 array_entities_def io' map_update up)
  qed
qed

lemma route_item_entities:
  assumes "route_item ndebug l g accepted io j = Inr io'"
  shows "map fst (array_entities t io') = map fst (array_entities t io)"
    and "i \<noteq> unat g \<Longrightarrow>
         snd (array_entities t io' ! k) ! i = snd (array_entities t io ! k) ! i"
proof -
  let ?t = "item_type (accepted_items (output' io) ! j)"
  let ?n = "item_name (accepted_items (output' io) ! j)"
  consider "t \<noteq> ?t" | "t = ?t" "\<not> is_array_type t" | "t = ?t" "is_array_type t"
    by blast
  then have "map fst (array_entities t io') = map fst (array_entities t io)
    \<and> (i \<noteq> unat g \<longrightarrow>
         snd (array_entities t io' ! k) ! i = snd (array_entities t io ! k) ! i)"
  proof cases
    case 1
    then show ?thesis using route_item_other_type [OF assms] by simp
  next
    case 2
    then have "array_entities t io' = []" "array_entities t io = []"
      by (auto simp: array_entities_def is_array_type_def split: ItemType.splits)
    then show ?thesis by simp
  next
    case 3
    from route_item_array_type [OF assms 3 refl]
    obtain k0 where f: "find_if (\<lambda>e. fst e = ?n) (array_entities t io) = Some k0"
      and u: "array_entities t io' = (array_entities t io)
          [k0 := (?n, (snd (array_entities t io ! k0))[unat g := accepted ! j])]"
      by blast
    note k0 = find_if_Some [OF f]
    have "map fst (array_entities t io') = map fst (array_entities t io)"
      using k0 by (simp add: u map_update list_update_same_conv)
    moreover have "snd (array_entities t io' ! k) ! i = snd (array_entities t io ! k) ! i"
      if "i \<noteq> unat g"
      using that k0 by (cases "k = k0") (simp_all add: u)
    ultimately show ?thesis by simp
  qed
  then show "map fst (array_entities t io') = map fst (array_entities t io)"
    and "i \<noteq> unat g \<Longrightarrow>
         snd (array_entities t io' ! k) ! i = snd (array_entities t io ! k) ! i"
    by simp_all
qed

lemma route_items_entities:
  assumes "for_each (route_item ndebug l g accepted) js io = Inr io'"
  shows "same_configuration io io'
    \<and> (\<forall>t. map fst (array_entities t io') = map fst (array_entities t io))
    \<and> (\<forall>t k i. i \<noteq> unat g \<longrightarrow>
          snd (array_entities t io' ! k) ! i = snd (array_entities t io ! k) ! i)"
  using assms
proof (rule for_each_preserves)
  show "same_configuration io io
    \<and> (\<forall>t. map fst (array_entities t io) = map fst (array_entities t io))
    \<and> (\<forall>t k i. i \<noteq> unat g \<longrightarrow>
          snd (array_entities t io ! k) ! i = snd (array_entities t io ! k) ! i)"
    by simp
next
  fix io1 j io2
  assume P: "same_configuration io io1
    \<and> (\<forall>t. map fst (array_entities t io1) = map fst (array_entities t io))
    \<and> (\<forall>t k i. i \<noteq> unat g \<longrightarrow>
          snd (array_entities t io1 ! k) ! i = snd (array_entities t io ! k) ! i)"
    and r: "route_item ndebug l g accepted io1 j = Inr io2"
  have "same_configuration io io2"
    using P route_item_configuration [OF r] by (blast intro: same_configuration_trans)
  then show "same_configuration io io2
    \<and> (\<forall>t. map fst (array_entities t io2) = map fst (array_entities t io))
    \<and> (\<forall>t k i. i \<noteq> unat g \<longrightarrow>
          snd (array_entities t io2 ! k) ! i = snd (array_entities t io ! k) ! i)"
    using P route_item_entities [OF r] by simp
qed

lemma find_if_fst:
  "map fst xs = map fst ys \<Longrightarrow>
   find_if (\<lambda>e. fst e = n) xs = find_if (\<lambda>e. fst e = n) ys"
  using find_if_map [of "\<lambda>s. s = n" fst xs] find_if_map [of "\<lambda>s. s = n" fst ys] by simp

lemma route_items_landing:
  assumes "for_each (route_item ndebug l g accepted) [0..<n] io = Inr io'"
    and "distinct (accepted_items (output' io))" and "j < n"
    and "t = item_type (accepted_items (output' io) ! j)" and "is_array_type t"
    and "name = item_name (accepted_items (output' io) ! j)"
  shows "\<exists>k. find_if (\<lambda>e. fst e = name) (array_entities t io) = Some k
    \<and> snd (array_entities t io' ! k) ! unat g = accepted ! j"
proof -
  let ?schema = "accepted_items (output' io)"
  obtain io_a io_b where
    a: "for_each (route_item ndebug l g accepted) [0..<j] io = Inr io_a"
    and b: "route_item ndebug l g accepted io_a j = Inr io_b"
    and c: "for_each (route_item ndebug l g accepted) [Suc j..<n] io_b = Inr io'"
    using assms(1) unfolding upt_split [OF assms(3)]
    by (auto simp: for_each_append split: sum.splits)
  note ea = route_items_entities [OF a]
  have schema_a: "accepted_items (output' io_a) = ?schema"
    using ea by (simp add: same_configuration_def)
  have j: "j < length ?schema"
    using b by (auto simp: route_item_def schema_a split: if_splits)
  from route_item_array_type [OF b, of t name] assms(4,5,6)
  obtain k where f: "find_if (\<lambda>e. fst e = name) (array_entities t io_a) = Some k"
    and g: "unat g < length (snd (array_entities t io_a ! k))"
    and u: "array_entities t io_b = (array_entities t io_a)
        [k := (name, (snd (array_entities t io_a ! k))[unat g := accepted ! j])]"
    by (auto simp: schema_a)
  note k = find_if_Some [OF f]
  have f0: "find_if (\<lambda>e. fst e = name) (array_entities t io) = Some k"
    using f find_if_fst [of "array_entities t io_a" "array_entities t io" name] ea by simp
  have kb: "array_entities t io_b ! k
      = (name, (snd (array_entities t io_a ! k))[unat g := accepted ! j])"
    using k by (simp add: u)
  let ?Q = "\<lambda>io1. same_configuration io io1
      \<and> map fst (array_entities t io1) = map fst (array_entities t io_b)
      \<and> array_entities t io1 ! k = array_entities t io_b ! k"
  have "?Q io'"
    using c
  proof (rule for_each_preserves)
    show "?Q io_b"
      using ea route_item_configuration [OF b] by (blast intro: same_configuration_trans)
  next
    fix io1 j' io2
    assume j': "j' \<in> set [Suc j..<n]" and Q: "?Q io1"
      and r: "route_item ndebug l g accepted io1 j' = Inr io2"
    have schema1: "accepted_items (output' io1) = ?schema"
      using Q by (simp add: same_configuration_def)
    have j'l: "j' < length ?schema"
      using r by (auto simp: route_item_def schema1 split: if_splits)
    have "?schema ! j' \<noteq> ?schema ! j"
      using assms(2) j j'l j' by (auto simp: nth_eq_iff_index_eq)
    then have diff: "item_type (?schema ! j') \<noteq> t \<or> item_name (?schema ! j') \<noteq> name"
      using assms(4,6) by (auto intro: OutputItem.equality)
    have 1: "same_configuration io io2"
      using Q route_item_configuration [OF r] by (blast intro: same_configuration_trans)
    have 2: "map fst (array_entities t io2) = map fst (array_entities t io_b)"
      using Q route_item_entities(1) [OF r] by simp
    have 3: "array_entities t io2 ! k = array_entities t io1 ! k"
    proof (cases "item_type (?schema ! j') = t")
      case False
      then show ?thesis
        using route_item_other_type [OF r, of t] by (simp add: schema1)
    next
      case True
      then have n': "item_name (?schema ! j') \<noteq> name" using diff by simp
      from route_item_array_type [OF r, of t "item_name (?schema ! j')"] True assms(5)
      obtain k' where f': "find_if (\<lambda>e. fst e = item_name (?schema ! j'))
            (array_entities t io1) = Some k'"
        and u': "\<exists>y. array_entities t io2 = (array_entities t io1)[k' := y]"
        by (auto simp: schema1)
      have "fst (array_entities t io1 ! k') = item_name (?schema ! j')"
        using find_if_Some [OF f'] by simp
      moreover have "fst (array_entities t io1 ! k) = name"
        using Q kb by simp
      ultimately have "k' \<noteq> k" using n' by auto
      then show ?thesis using u' by auto
    qed
    show "?Q io2"
      using 1 2 3 Q by simp
  qed
  then have "snd (array_entities t io' ! k) ! unat g = accepted ! j"
    using kb g by simp
  then show ?thesis
    using f0 by blast
qed

text \<open>
  Claim C3. For the system at \<open>local_id\<close>, with \<open>g\<close> its entry in the index map, whatever
  the map is: the serializer writes its block under the key \<open>g + 1\<close>; reading its row
  leaves every entry of every array-valued entity (equilibrium phase, kinetic reactant,
  secondary variable) other than the entry at \<open>g\<close> as it was; and, for a schema without
  repeated items, the value of each array-valued column is stored at the entry \<open>g\<close> of
  the entity that the column names.
\<close>

theorem index_lockstep:
  assumes "write_system io os local_id = Inr os'"
    and "read_system stod ndebug (io, ins) local_id = Inr (io', ins')"
    and "g = chemical_system_map io ! local_id"
  shows "(\<exists>rest. os' = os @ Lit ''SOLUTION '' # Num (g + 1) # rest)
    \<and> (\<forall>t k i. i \<noteq> unat g \<longrightarrow>
          snd (array_entities t io' ! k) ! i = snd (array_entities t io ! k) ! i)
    \<and> (\<exists>line accepted.
          getline ((ignore_line ^^ num_skipped_lines io) ins) = (Some line, ins')
          \<and> accept_items stod (dropped_item_ids (output' io)) g (tokens line) = Inr accepted
          \<and> (distinct (accepted_items (output' io)) \<longrightarrow>
               (\<forall>j<length accepted.
                  is_array_type (item_type (accepted_items (output' io) ! j)) \<longrightarrow>
                  (\<exists>k. find_if (\<lambda>e. fst e = item_name (accepted_items (output' io) ! j))
                          (array_entities (item_type (accepted_items (output' io) ! j)) io)
                        = Some k
                     \<and> snd (array_entities (item_type (accepted_items (output' io) ! j)) io' ! k)
                          ! unat g
                        = accepted ! j))))"
proof (intro conjI)
  show "\<exists>rest. os' = os @ Lit ''SOLUTION '' # Num (g + 1) # rest"
    using assms(1,3)
    by (auto simp: write_system_def Let_def split: if_splits sum.splits)
  obtain line accepted where
    gl: "getline ((ignore_line ^^ num_skipped_lines io) ins) = (Some line, ins')"
    and acc: "accept_items stod (dropped_item_ids (output' io)) g (tokens line) = Inr accepted"
    and route: "for_each (route_item ndebug local_id g accepted) [0..<length accepted] io = Inr io'"
    using assms(2,3)
    by (auto simp: read_system_def process_row_def Let_def
        split: if_splits sum.splits option.splits prod.splits)
  show "\<forall>t k i. i \<noteq> unat g \<longrightarrow>
      snd (array_entities t io' ! k) ! i = snd (array_entities t io ! k) ! i"
    using route_items_entities [OF route] by blast
  have "\<exists>k. find_if (\<lambda>e. fst e = item_name (accepted_items (output' io) ! j))
          (array_entities (item_type (accepted_items (output' io) ! j)) io) = Some k
      \<and> snd (array_entities (item_type (accepted_items (output' io) ! j)) io' ! k) ! unat g
          = accepted ! j"
    if "distinct (accepted_items (output' io))" and "j < length accepted"
      and "is_array_type (item_type (accepted_items (output' io) ! j))" for j
    using route_items_landing [OF route that(1,2) refl that(3) refl] .
  then show "\<exists>line accepted.
      getline ((ignore_line ^^ num_skipped_lines io) ins) = (Some line, ins')
      \<and> accept_items stod (dropped_item_ids (output' io)) g (tokens line) = Inr accepted
      \<and> (distinct (accepted_items (output' io)) \<longrightarrow>
           (\<forall>j<length accepted.
              is_array_type (item_type (accepted_items (output' io) ! j)) \<longrightarrow>
              (\<exists>k. find_if (\<lambda>e. fst e = item_name (accepted_items (output' io) ! j))
                      (array_entities (item_type (accepted_items (output' io) ! j)) io)
                    = Some k
                 \<and> snd (array_entities (item_type (accepted_items (output' io) ! j)) io' ! k)
                      ! unat g
                    = accepted ! j)))"
    using gl acc by blast
qed

subsection \<open>A configuration with two systems and a permuted index map\<close>

lemma funpow_two: "(f ^^ 2) x = f (f x)"
  by (simp add: numeral_2_eq_2)

lemmas row_eval = process_row_def accept_items_def accept_item_def route_item_def tokens_def
  trim_if_def is_tab_or_space_def split_compress.simps stod_digits_def is_digit_def
  vector_set_def quoted_def Let_def

lemmas stream_eval = deserialize_def read_system_def getline_def ignore_line_def good_def
  newline_def num_skipped_lines_def result_file_def funpow_two

text \<open>
  Claim C1 at a concrete input. The schema has two items and one column is dropped, so
  a data row has three tokens. The row of the first system has two. Compiled with
  \<^verbatim>\<open>NDEBUG\<close> the operator overwrites the pH of that system, leaves the equilibrium phase
  as it was and returns; with assertions the \<^verbatim>\<open>assert\<close> of line 479 stops the program.
\<close>

theorem short_row_is_routed:
  "deserialize stod_digits True (two_systems, result_file (header_line # short_rows))
     = Inr (two_systems
              \<lparr>aqueous_solutions :=
                 [\<lparr>pH = 9, pe = 4, components = [\<lparr>comp_name = ''H'', comp_amount = 1\<rparr>]\<rparr>,
                  \<lparr>pH = 8, pe = 4, components = [\<lparr>comp_name = ''H'', comp_amount = 1\<rparr>]\<rparr>],
               equilibrium_phases := [\<lparr>ep_name = ''Calcite'', ep_amount = [5, 0]\<rparr>]\<rparr>,
            result_file [])
   \<and> deserialize stod_digits False (two_systems, result_file (header_line # short_rows))
     = Inl AssertionFailure"
  by (simp add: row_eval stream_eval two_systems_def header_line_def short_rows_def upt_rec)

lemma no_newline_fixtures:
  "no_newline header_line" "list_all no_newline good_rows" "list_all no_newline other_rows"
  "list_all no_newline bad_rows"
  by (simp_all add: no_newline_def newline_def header_line_def good_rows_def other_rows_def
      bad_rows_def)

theorem header_skips_and_one_row_witness:
  "no_newline header_line \<and> list_all no_newline good_rows
   \<and> deserialize stod_digits True (two_systems, result_file (header_line # good_rows))
     = Inr (two_systems
              \<lparr>aqueous_solutions :=
                 [\<lparr>pH = 9, pe = 4, components = [\<lparr>comp_name = ''H'', comp_amount = 1\<rparr>]\<rparr>,
                  \<lparr>pH = 8, pe = 4, components = [\<lparr>comp_name = ''H'', comp_amount = 1\<rparr>]\<rparr>],
               equilibrium_phases := [\<lparr>ep_name = ''Calcite'', ep_amount = [5, 3]\<rparr>]\<rparr>,
            result_file [])"
proof -
  have n: "unat (num_chemical_systems two_systems) * Suc (num_skipped_lines two_systems)
      \<le> length good_rows"
    by (simp add: two_systems_def num_skipped_lines_def good_rows_def)
  from header_skips_and_one_row [OF no_newline_fixtures(1,2) n, of stod_digits True,
      THEN conjunct1]
  show ?thesis
    using no_newline_fixtures(1,2)
    by (simp add: row_eval read_row_def data_rows.simps num_skipped_lines_def two_systems_def
        good_rows_def upt_rec)
qed

theorem conversion_failure_is_fatal_witness:
  "no_newline header_line \<and> list_all no_newline bad_rows
   \<and> first_failure stod_digits (dropped_item_ids (output' two_systems)) [''2'', ''x'', ''5''] 1
   \<and> deserialize stod_digits True (two_systems, result_file (header_line # bad_rows))
     = Inl (ConversionFailure InvalidArgument ''x'' 0 1)"
proof -
  have n: "unat (num_chemical_systems two_systems) * Suc (num_skipped_lines two_systems)
      \<le> length bad_rows"
    and m: "unat (num_chemical_systems two_systems) \<le> length (chemical_system_map two_systems)"
    and l: "1 < unat (num_chemical_systems two_systems)"
    and i: "[''2'', ''x'', ''5'']
      = tokens (bad_rows ! (1 * Suc (num_skipped_lines two_systems) + num_skipped_lines two_systems))"
    and f: "first_failure stod_digits (dropped_item_ids (output' two_systems)) [''2'', ''x'', ''5''] 1"
    by (simp_all add: two_systems_def num_skipped_lines_def bad_rows_def first_failure_def
        row_eval)
  have before: "\<exists>st. for_each (read_system stod_digits True) [0..<1]
      (two_systems, ignore_line (result_file (header_line # bad_rows))) = Inr st"
    by (simp add: row_eval stream_eval two_systems_def header_line_def bad_rows_def)
  from conversion_failure_is_fatal [OF no_newline_fixtures(1,4) n m l i f, of True] before
  show ?thesis
    using no_newline_fixtures(1,4) f by (auto simp: two_systems_def stod_digits_def is_digit_def)
qed

theorem dropped_columns_do_not_matter_witness:
  "list_all no_newline (header_line # good_rows) \<and> list_all no_newline (header_line # other_rows)
   \<and> list_all2 (rows_agree (dropped_item_ids (output' two_systems)))
        (header_line # good_rows) (header_line # other_rows)
   \<and> good_rows \<noteq> other_rows
   \<and> map_sum id fst
        (deserialize stod_digits True (two_systems, result_file (header_line # good_rows)))
     = map_sum id fst
        (deserialize stod_digits True (two_systems, result_file (header_line # other_rows)))"
proof -
  have 1: "list_all no_newline (header_line # good_rows)"
    and 2: "list_all no_newline (header_line # other_rows)"
    using no_newline_fixtures by simp_all
  have 3: "list_all2 (rows_agree (dropped_item_ids (output' two_systems)))
        (header_line # good_rows) (header_line # other_rows)"
    by (simp add: two_systems_def good_rows_def other_rows_def rows_agree_def tokens_def
        trim_if_def is_tab_or_space_def split_compress.simps Let_def upt_rec)
  have 4: "good_rows \<noteq> other_rows"
    by (simp add: good_rows_def other_rows_def)
  from dropped_columns_do_not_matter [OF 1 2 3, of stod_digits True]
  show ?thesis
    using 1 2 3 4 by blast
qed

theorem index_lockstep_witness:
  "\<exists>os' io' ins'.
     write_system two_systems [] 0 = Inr os'
     \<and> read_system stod_digits True (two_systems, result_file good_rows) 0 = Inr (io', ins')
     \<and> chemical_system_map two_systems ! 0 = 1
     \<and> (\<exists>rest. os' = Lit ''SOLUTION '' # Num 2 # rest)
     \<and> snd (array_entities ItemType_EquilibriumPhase io' ! 0) ! 0 = 0
     \<and> snd (array_entities ItemType_EquilibriumPhase io' ! 0) ! 1 = 3"
proof -
  obtain os' where w: "write_system two_systems [] 0 = Inr os'"
    by (simp add: write_system_def write_prev_def write_surface_def two_systems_def)
  obtain io' ins' where
    r: "read_system stod_digits True (two_systems, result_file good_rows) 0 = Inr (io', ins')"
    by (simp add: row_eval read_system_def getline_def ignore_line_def good_def newline_def
        num_skipped_lines_def result_file_def funpow_two two_systems_def good_rows_def)
  have g: "(1 :: 64 word) = chemical_system_map two_systems ! 0"
    by (simp add: two_systems_def)
  note t = index_lockstep [OF w r g]
  have key: "\<exists>rest. os' = Lit ''SOLUTION '' # Num 2 # rest"
    using t by simp
  have frame: "snd (array_entities ItemType_EquilibriumPhase io' ! 0) ! 0
      = snd (array_entities ItemType_EquilibriumPhase two_systems ! 0) ! 0"
    using t by simp
  obtain line accepted where
    gl: "getline ((ignore_line ^^ num_skipped_lines two_systems) (result_file good_rows))
          = (Some line, ins')"
    and acc: "accept_items stod_digits (dropped_item_ids (output' two_systems)) 1 (tokens line)
          = Inr accepted"
    and land: "distinct (accepted_items (output' two_systems)) \<longrightarrow>
        (\<forall>j<length accepted.
           is_array_type (item_type (accepted_items (output' two_systems) ! j)) \<longrightarrow>
           (\<exists>k. find_if (\<lambda>e. fst e = item_name (accepted_items (output' two_systems) ! j))
                   (array_entities (item_type (accepted_items (output' two_systems) ! j))
                      two_systems) = Some k
              \<and> snd (array_entities (item_type (accepted_items (output' two_systems) ! j)) io' ! k)
                   ! unat (1 :: 64 word) = accepted ! j))"
    using t by blast
  have line: "line = ''1 9 3''"
    using gl
    by (simp add: getline_def ignore_line_def good_def newline_def num_skipped_lines_def
        result_file_def funpow_two two_systems_def good_rows_def)
  have accepted: "accepted = [9, 3]"
    using acc by (simp add: line row_eval two_systems_def)
  have "snd (array_entities ItemType_EquilibriumPhase io' ! 0) ! 1 = 3"
    using land [rule_format, of 1]
    by (simp add: accepted two_systems_def is_array_type_def array_entities_def)
  moreover have "snd (array_entities ItemType_EquilibriumPhase two_systems ! 0) ! 0 = 0"
    by (simp add: array_entities_def two_systems_def)
  ultimately show ?thesis
    using w r g key frame by auto
qed

end
